theory Spec2Isabelle
  imports Complex_Main
begin

section \<open>Strings as the script uses them\<close>

text \<open>
  \<^verbatim>\<open>pipeline.py\<close> is one linear script: an HTTP fetch, a clean-up of the column names and
  cells of the parsed CSV, and a load into PostgreSQL. Its strings are Python \<^verbatim>\<open>str\<close> values.
  A character is modelled by its code point, for the code points below 256 (ASCII and
  Latin-1), which is what \<^typ>\<open>char\<close> holds; on these, \<^verbatim>\<open>str.isspace\<close>,
  \<^verbatim>\<open>str.lower\<close> and \<^verbatim>\<open>str.strip\<close> are the functions below.
\<close>

definition py_isspace :: "char \<Rightarrow> bool" where
  \<comment> \<open>tab, LF, VT, FF, CR, the four separators FS..US, space, NEL and the no-break space\<close>
  "py_isspace c =
     (let n = (of_char c :: nat)
      in (9 \<le> n \<and> n \<le> 13) \<or> (28 \<le> n \<and> n \<le> 32) \<or> n = 133 \<or> n = 160)"

definition lower_char :: "char \<Rightarrow> char" where
  \<comment> \<open>A..Z and the Latin-1 capitals (all of 0xC0..0xDE but the multiplication sign)\<close>
  "lower_char c =
     (let n = (of_char c :: nat)
      in if (65 \<le> n \<and> n \<le> 90) \<or> (192 \<le> n \<and> n \<le> 214) \<or> (216 \<le> n \<and> n \<le> 222)
         then char_of (n + 32) else c)"

definition py_lower :: "string \<Rightarrow> string" where
  "py_lower s = map lower_char s"

definition py_strip :: "string \<Rightarrow> string" where
  \<comment> \<open>\<^verbatim>\<open>s.strip()\<close>: whitespace is dropped at both ends\<close>
  "py_strip s = rev (dropWhile py_isspace (rev (dropWhile py_isspace s)))"

definition str_replace :: "char \<Rightarrow> string \<Rightarrow> string \<Rightarrow> string" where
  \<comment> \<open>\<^verbatim>\<open>s.replace(p, r)\<close> for a pattern of one character, read literally\<close>
  "str_replace p r s = concat (map (\<lambda>c. if c = p then r else [c]) s)"

text \<open>
  Lines 47 to 55: \<^verbatim>\<open>df.columns.str.strip().str.lower().str.replace("?", "", regex=False)
  .str.replace(" ", "_").str.replace("&", "and").str.replace("-", "_")\<close>, for one column
  name. The innermost call runs first.
\<close>

definition canonical :: "string \<Rightarrow> string" where
  "canonical h =
     str_replace (CHR ''-'') ''_''
       (str_replace (CHR ''&'') ''and''
         (str_replace (CHR '' '') ''_''
           (str_replace (CHR ''?'') ''''
             (py_lower (py_strip h)))))"

definition settled :: "string \<Rightarrow> bool" where
  \<comment> \<open>no character of \<open>s\<close> is touched by any step of the chain after the trim\<close>
  "settled s =
     (\<forall>c\<in>set s. lower_char c = c \<and> c \<noteq> CHR ''?'' \<and> c \<noteq> CHR '' '' \<and>
        c \<noteq> CHR ''&'' \<and> c \<noteq> CHR ''-'')"

section \<open>Cells, frames and errors\<close>

text \<open>
  A cell is a value that \<^verbatim>\<open>pd.read_csv\<close> leaves in the frame, or that the script puts
  there: \<^verbatim>\<open>None\<close>, the float \<^verbatim>\<open>nan\<close>, pandas' \<^verbatim>\<open>NaT\<close>, a bool, an int, a
  finite float, a str, or a \<^verbatim>\<open>Timestamp\<close> (by its nanoseconds since the epoch).
  A frame is its column labels and its rows; a row of \<^verbatim>\<open>df.iterrows()\<close> is a Series, the
  labels paired with the cells of the row.
\<close>

datatype cell =
    PyNone
  | PyNaN
  | PyNaT
  | PyBool bool
  | PyInt int
  | PyFloat real
  | PyStr string
  | PyTimestamp int

record frame =
  columns :: "string list"
  rows :: "cell list list"

type_synonym series = "(string \<times> cell) list"

record http_response =
  status_code :: int
  body_text :: string

text \<open>
  The statements the script sends, all of them against \<^verbatim>\<open>migration.migration_on_job_market\<close>
  (\<^verbatim>\<open>CREATE SCHEMA IF NOT EXISTS\<close>, \<^verbatim>\<open>DROP TABLE IF EXISTS\<close>, \<^verbatim>\<open>CREATE TABLE\<close> and the
  parameterised \<^verbatim>\<open>INSERT\<close> with its tuple of twelve parameters), and the calls it makes on
  the psycopg2 connection and cursor.
\<close>

datatype stmt = CreateSchema | DropTable | CreateTable | Insert "cell list"

datatype db_call = Connect | Cursor | Execute stmt | Commit | CursorClose | ConnectionClose

text \<open>
  What ends a run early: the \<^verbatim>\<open>Exception\<close> of line 37 with the status code in its message
  (the specification's FetchError), an exception of \<^verbatim>\<open>pd.read_csv\<close>, the \<^verbatim>\<open>KeyError\<close> of
  a label lookup with the label (the specification's SchemaMismatchError), and an exception
  of a psycopg2 call, with the call.
\<close>

datatype error = FetchError int | ParseError | KeyError string | DatabaseError db_call

text \<open>
  Everything outside the script is a parameter of the run: the response of the GET, the
  CSV parser, the permissive timestamp parser (given a column and a position, the
  timestamp it reads there, if any), the text \<^verbatim>\<open>str()\<close> gives a float and a Timestamp, and
  for each database call whether it raises, given the calls that went through before it.
\<close>

record env =
  response :: http_response
  read_csv :: "string \<Rightarrow> frame option"
  parse_datetime :: "cell list \<Rightarrow> nat \<Rightarrow> int option"
  str_float :: "real \<Rightarrow> string"
  str_timestamp :: "int \<Rightarrow> string"
  db_raises :: "db_call list \<Rightarrow> db_call \<Rightarrow> bool"

type_synonym outcome = "error option \<times> db_call list"

section \<open>Step 1: the fetch\<close>

definition fetch :: "http_response \<Rightarrow> error + string" where
  \<comment> \<open>lines 36 to 39\<close>
  "fetch r =
     (if status_code r \<noteq> 200 then Inl (FetchError (status_code r)) else Inr (body_text r))"

definition is_2xx :: "int \<Rightarrow> bool" where
  "is_2xx n = (200 \<le> n \<and> n \<le> 299)"

section \<open>Step 2: column names, missing cells, timestamps\<close>

definition rename_columns :: "frame \<Rightarrow> frame" where
  "rename_columns df = df\<lparr>columns := map canonical (columns df)\<rparr>"

definition notnull :: "cell \<Rightarrow> bool" where
  "notnull c = (c \<noteq> PyNone \<and> c \<noteq> PyNaN \<and> c \<noteq> PyNaT)"

definition frame_column :: "frame \<Rightarrow> nat \<Rightarrow> cell list" where
  "frame_column df j = map (\<lambda>r. r ! j) (rows df)"

definition numeric_cell :: "cell \<Rightarrow> bool" where
  "numeric_cell c = (case c of PyInt n \<Rightarrow> True | PyFloat r \<Rightarrow> True | PyNaN \<Rightarrow> True | _ \<Rightarrow> False)"

definition numeric_dtype :: "cell list \<Rightarrow> bool" where
  \<comment> \<open>the column was read as int64 or float64: numbers, and NaN where a cell was missing\<close>
  "numeric_dtype col = list_all numeric_cell col"

definition where_cell :: "cell list \<Rightarrow> cell \<Rightarrow> cell" where
  \<comment> \<open>one cell of \<^verbatim>\<open>df.where(pd.notnull(df), None)\<close>, given its column. pandas (from 1.3,
      the first version that has the \<^verbatim>\<open>on_bad_lines\<close> of line 40) reads the replacement
      None as the missing value of the column's own dtype: a numeric column keeps its
      NaN, a column of dtype object gets None\<close>
  "where_cell col c = (if notnull c \<or> numeric_dtype col then c else PyNone)"

definition where_notnull :: "frame \<Rightarrow> frame" where
  \<comment> \<open>line 58\<close>
  "where_notnull df =
     df\<lparr>rows := map (\<lambda>r. map (\<lambda>(j, c). where_cell (frame_column df j) c) (List.enumerate 0 r))
                   (rows df)\<rparr>"

fun index_of :: "string \<Rightarrow> string list \<Rightarrow> nat option" where
  "index_of k [] = None"
| "index_of k (x # xs) = (if x = k then Some 0 else map_option Suc (index_of k xs))"

definition coerce_datetime :: "env \<Rightarrow> cell list \<Rightarrow> nat \<Rightarrow> cell" where
  \<comment> \<open>\<^verbatim>\<open>errors="coerce"\<close>: what does not parse is set to NaT\<close>
  "coerce_datetime e col i =
     (case parse_datetime e col i of None \<Rightarrow> PyNaT | Some t \<Rightarrow> PyTimestamp t)"

definition to_datetime_column :: "env \<Rightarrow> string \<Rightarrow> frame \<Rightarrow> error + frame" where
  \<comment> \<open>lines 61 and 62, \<^verbatim>\<open>df[k] = pd.to_datetime(df[k], errors="coerce")\<close>\<close>
  "to_datetime_column e k df =
     (case index_of k (columns df) of
        None \<Rightarrow> Inl (KeyError k)
      | Some j \<Rightarrow>
          (let col = map (\<lambda>r. r ! j) (rows df);
               new = map (coerce_datetime e col) [0..<length col]
           in Inr (df\<lparr>rows := map (\<lambda>(r, v). r[j := v]) (zip (rows df) new)\<rparr>)))"

definition and_then :: "error + 'a \<Rightarrow> ('a \<Rightarrow> error + 'b) \<Rightarrow> error + 'b" where
  "and_then r f = (case r of Inl e \<Rightarrow> Inl e | Inr v \<Rightarrow> f v)"

definition normalize :: "env \<Rightarrow> frame \<Rightarrow> error + frame" where
  "normalize e df =
     and_then (to_datetime_column e ''start'' (where_notnull (rename_columns df)))
       (to_datetime_column e ''end'')"

definition well_formed :: "frame \<Rightarrow> bool" where
  \<comment> \<open>a parsed frame is rectangular; the model reads a label lookup as a scalar, which is
      what pandas does when no two columns carry the same canonical name\<close>
  "well_formed df =
     (list_all (\<lambda>r. length r = length (columns df)) (rows df) \<and>
      distinct (map canonical (columns df)))"

section \<open>Step 3: the tuple of one row\<close>

definition getitem :: "series \<Rightarrow> string \<Rightarrow> error + cell" where
  \<comment> \<open>\<^verbatim>\<open>row[k]\<close>, for a row whose labels are pairwise distinct: the cell under the label, or
      KeyError. (Under a label that occurs twice pandas gives a Series, not a cell; every
      statement about rows below is for distinct labels.)\<close>
  "getitem row k = (case map_of row k of None \<Rightarrow> Inl (KeyError k) | Some v \<Rightarrow> Inr v)"

definition get_default :: "series \<Rightarrow> string \<Rightarrow> cell \<Rightarrow> cell" where
  \<comment> \<open>\<^verbatim>\<open>row.get(k, d)\<close>, for a row whose labels are pairwise distinct\<close>
  "get_default row k d = (case map_of row k of None \<Rightarrow> d | Some v \<Rightarrow> v)"

fun nat_digits :: "nat \<Rightarrow> string" where
  "nat_digits n =
     (if n < 10 then [char_of (48 + n)] else nat_digits (n div 10) @ [char_of (48 + n mod 10)])"

declare nat_digits.simps [simp del]

definition str_int :: "int \<Rightarrow> string" where
  "str_int n = (if n < 0 then CHR ''-'' # nat_digits (nat (- n)) else nat_digits (nat n))"

definition py_str :: "env \<Rightarrow> cell \<Rightarrow> string" where
  \<comment> \<open>\<^verbatim>\<open>str(x)\<close>\<close>
  "py_str e x =
     (case x of
        PyNone \<Rightarrow> ''None''
      | PyNaN \<Rightarrow> ''nan''
      | PyNaT \<Rightarrow> ''NaT''
      | PyBool b \<Rightarrow> (if b then ''True'' else ''False'')
      | PyInt n \<Rightarrow> str_int n
      | PyFloat r \<Rightarrow> str_float e r
      | PyStr s \<Rightarrow> s
      | PyTimestamp t \<Rightarrow> str_timestamp e t)"

definition truthy :: "cell \<Rightarrow> bool" where
  \<comment> \<open>\<^verbatim>\<open>bool(x)\<close>; the float \<^verbatim>\<open>nan\<close> is not zero, so it is true\<close>
  "truthy x =
     (case x of
        PyNone \<Rightarrow> False
      | PyNaN \<Rightarrow> True
      | PyNaT \<Rightarrow> True
      | PyBool b \<Rightarrow> b
      | PyInt n \<Rightarrow> n \<noteq> 0
      | PyFloat r \<Rightarrow> r \<noteq> 0
      | PyStr s \<Rightarrow> s \<noteq> []
      | PyTimestamp t \<Rightarrow> True)"

definition or_zero :: "cell \<Rightarrow> cell" where
  \<comment> \<open>\<^verbatim>\<open>x or 0\<close>\<close>
  "or_zero x = (if truthy x then x else PyInt 0)"

definition education_key :: string where
  "education_key = ''current_highest_level_of_education''"

definition age_key :: string where
  "age_key = ''what_was_your_age_range_at_the_time_of_migration''"

definition rural_key :: string where
  "rural_key = ''did_you_migrate_from_a_rural_area_to_this_urban_area''"

definition employment_key :: string where
  "employment_key = ''what_is_your_current_employment_status_in_this_urban_area''"

definition months_key :: string where
  "months_key =
     ''how_many_months_did_it_take_you_to_get_your_first_job_after_arriving_in_the_city''"

definition income_key :: string where
  "income_key = ''what_is_your_current_average_monthly_income_(rwf)''"

definition applications_key :: string where
  "applications_key =
     ''in_the_last_12_months,_how_many_job_applications_have_you_submitted_in_this_urban_area''"

definition changes_key :: string where
  "changes_key = ''how_many_times_have_you_changed_jobs_since_moving_to_the_city''"

definition numeric_keys :: "string list" where
  \<comment> \<open>the labels of lines 130 to 133\<close>
  "numeric_keys = [months_key, income_key, applications_key, changes_key]"

definition rural_to_urban :: "env \<Rightarrow> series \<Rightarrow> bool" where
  \<comment> \<open>line 128\<close>
  "rural_to_urban e row =
     (py_lower (py_strip (py_str e (get_default row rural_key (PyStr '''')))) = ''yes'')"

text \<open>
  Lines 121 to 134: the twelve parameters, evaluated from left to right, so that the first
  label that is not in the row raises.
\<close>

definition row_params :: "env \<Rightarrow> series \<Rightarrow> error + cell list" where
  "row_params e row =
     and_then (getitem row ''start'') (\<lambda>start_time.
     and_then (getitem row ''end'') (\<lambda>end_time.
     and_then (getitem row ''gender'') (\<lambda>gender.
     and_then (getitem row education_key) (\<lambda>education_level.
     and_then (getitem row ''province_of_origin'') (\<lambda>province_of_origin.
     and_then (getitem row age_key) (\<lambda>age_range.
     and_then (Inr (PyBool (rural_to_urban e row))) (\<lambda>rural.
     and_then (getitem row employment_key) (\<lambda>employment_status.
     and_then (getitem row months_key) (\<lambda>months_to_first_job.
     and_then (getitem row income_key) (\<lambda>monthly_income_rwf.
     and_then (getitem row applications_key) (\<lambda>job_applications_12m.
     and_then (getitem row changes_key) (\<lambda>job_changes.
       Inr [start_time, end_time, gender, education_level, province_of_origin, age_range,
            rural, employment_status, or_zero months_to_first_job,
            or_zero monthly_income_rwf, or_zero job_applications_12m,
            or_zero job_changes]))))))))))))"

definition subscript_keys :: "string list" where
  \<comment> \<open>the labels read with \<^verbatim>\<open>row[...]\<close>, in the order of the tuple\<close>
  "subscript_keys =
     [''start'', ''end'', ''gender'', education_key, ''province_of_origin'', age_key,
      employment_key, months_key, income_key, applications_key, changes_key]"

section \<open>Step 3: the database calls\<close>

fun db_calls :: "env \<Rightarrow> db_call list \<Rightarrow> db_call list \<Rightarrow> outcome" where
  \<comment> \<open>calls made one after the other; the first that raises ends the run\<close>
  "db_calls e tr [] = (None, tr)"
| "db_calls e tr (c # cs) =
     (if db_raises e tr c then (Some (DatabaseError c), tr) else db_calls e (tr @ [c]) cs)"

definition iterrows :: "frame \<Rightarrow> series list" where
  "iterrows df = map (zip (columns df)) (rows df)"

fun insert_rows :: "env \<Rightarrow> series list \<Rightarrow> db_call list \<Rightarrow> outcome" where
  \<comment> \<open>the loop of lines 120 to 134\<close>
  "insert_rows e [] tr = (None, tr)"
| "insert_rows e (row # rest) tr =
     (case row_params e row of
        Inl err \<Rightarrow> (Some err, tr)
      | Inr ps \<Rightarrow>
          (if db_raises e tr (Execute (Insert ps))
           then (Some (DatabaseError (Execute (Insert ps))), tr)
           else insert_rows e rest (tr @ [Execute (Insert ps)])))"

definition opening_calls :: "db_call list" where
  \<comment> \<open>lines 72 to 101\<close>
  "opening_calls = [Connect, Cursor, Execute CreateSchema, Execute DropTable, Execute CreateTable]"

definition closing_calls :: "db_call list" where
  \<comment> \<open>lines 136 to 138\<close>
  "closing_calls = [Commit, CursorClose, ConnectionClose]"

definition upload :: "env \<Rightarrow> frame \<Rightarrow> outcome" where
  "upload e df =
     (case db_calls e [] opening_calls of
        (Some err, tr) \<Rightarrow> (Some err, tr)
      | (None, tr) \<Rightarrow>
          (case insert_rows e (iterrows df) tr of
             (Some err, tr') \<Rightarrow> (Some err, tr')
           | (None, tr') \<Rightarrow> db_calls e tr' closing_calls))"

section \<open>The whole run\<close>

definition run :: "env \<Rightarrow> outcome" where
  "run e =
     (case fetch (response e) of
        Inl err \<Rightarrow> (Some err, [])
      | Inr txt \<Rightarrow>
          (case read_csv e txt of
             None \<Rightarrow> (Some ParseError, [])
           | Some df \<Rightarrow>
               (case normalize e df of
                  Inl err \<Rightarrow> (Some err, [])
                | Inr df' \<Rightarrow> upload e df')))"

definition is_insert :: "db_call \<Rightarrow> bool" where
  "is_insert c = (case c of Execute (Insert ps) \<Rightarrow> True | _ \<Rightarrow> False)"

definition trimmed :: "string \<Rightarrow> bool" where
  \<comment> \<open>no whitespace at either end\<close>
  "trimmed s = (s = [] \<or> (\<not> py_isspace (hd s) \<and> \<not> py_isspace (last s)))"

section \<open>A sample survey export\<close>


definition survey_columns :: "string list" where
  "survey_columns =
     [''start'', ''end'', ''Gender'', ''Current highest level of education'',
      ''Province of origin'', ''What was your age range at the time of migration?'',
      ''Did you migrate from a rural area to this urban area?'',
      ''What is your current employment status in this urban area?'',
      ''How many months did it take you to get your first job after arriving in the city?'',
      ''What is your current average monthly income (RWF)?'',
      ''In the last 12 months, how many job applications have you submitted in this urban area?'',
      ''How many times have you changed jobs since moving to the city?'']"

definition survey_row :: "cell list" where
  "survey_row =
     [PyStr ''2025-01-05T10:00:00'', PyStr ''not a date'', PyStr ''Female'', PyStr ''Bachelor'',
      PyStr ''Kigali'', PyStr ''18-24'', PyStr ''YES '', PyStr ''Employed'',
      PyInt 3, PyInt 250000, PyInt 12, PyInt 0]"

definition survey_frame :: "cell list list \<Rightarrow> frame" where
  "survey_frame rs = \<lparr>columns = survey_columns, rows = rs\<rparr>"

definition without_column :: "string \<Rightarrow> frame \<Rightarrow> frame" where
  "without_column k df =
     \<lparr>columns = filter (\<lambda>c. c \<noteq> k) (columns df),
      rows = map (\<lambda>r. map snd (filter (\<lambda>(c, v). c \<noteq> k) (zip (columns df) r))) (rows df)\<rparr>"

definition survey_parser :: "cell list \<Rightarrow> nat \<Rightarrow> int option" where
  "survey_parser col i =
     (if col ! i = PyStr ''2025-01-05T10:00:00'' then Some 1736071200000000000 else None)"

definition survey_env :: "int \<Rightarrow> frame \<Rightarrow> env" where
  "survey_env st df =
     \<lparr>response = \<lparr>status_code = st, body_text = ''start;end''\<rparr>,
      read_csv = (\<lambda>txt. Some df),
      parse_datetime = survey_parser,
      str_float = (\<lambda>r. ''0.0''),
      str_timestamp = (\<lambda>t. ''2025-01-05 10:00:00''),
      db_raises = (\<lambda>tr c. False)\<rparr>"

definition gender_header :: string where
  "gender_header = ''Gender''"

definition rural_header :: string where
  "rural_header = ''Did you migrate from a rural area to this urban area?''"

definition income_header :: string where
  "income_header = ''What is your current average monthly income (RWF)?''"

definition survey_series :: series where
  \<comment> \<open>a row as the loop sees it, from an export whose income column has a missing cell
      and whose applications column was read as text\<close>
  "survey_series =
     [(''start'', PyTimestamp 1736071200000000000), (''end'', PyNaT),
      (''gender'', PyStr ''Female''), (education_key, PyStr ''Bachelor''),
      (''province_of_origin'', PyStr ''Kigali''), (age_key, PyStr ''18-24''),
      (rural_key, PyStr ''YES ''), (employment_key, PyStr ''Employed''),
      (months_key, PyInt 3), (income_key, PyNone), (applications_key, PyStr ''12''),
      (changes_key, PyInt 0)]"

definition income_frame :: frame where
  \<comment> \<open>an export whose income column was read as text, with one cell missing\<close>
  "income_frame =
     \<lparr>columns = [''start'', ''end'', income_header],
      rows = [[PyStr ''2025-01-05T10:00:00'', PyStr ''2025-01-05T10:00:00'', PyStr ''unknown''],
              [PyStr ''2025-01-05T10:00:00'', PyStr ''2025-01-05T10:00:00'', PyNaN]]\<rparr>"

definition income_frame_normalized :: frame where
  "income_frame_normalized =
     \<lparr>columns = [''start'', ''end'', income_key],
      rows = [[PyTimestamp 1736071200000000000, PyTimestamp 1736071200000000000,
               PyStr ''unknown''],
              [PyTimestamp 1736071200000000000, PyTimestamp 1736071200000000000, PyNone]]\<rparr>"

definition close_fails_env :: "frame \<Rightarrow> env" where
  \<comment> \<open>the sample environment, but \<^verbatim>\<open>conn.close()\<close> raises\<close>
  "close_fails_env df = (survey_env 200 df)\<lparr>db_raises := (\<lambda>tr c. c = ConnectionClose)\<rparr>"

section \<open>Properties of the canonical column names\<close>

lemma lower_char_idem: "lower_char (lower_char c) = lower_char c"
  by (simp add: lower_char_def Let_def)

lemma lower_char_fixed:
  "lower_char (CHR ''_'') = CHR ''_''" "lower_char (CHR ''a'') = CHR ''a''"
  "lower_char (CHR ''n'') = CHR ''n''" "lower_char (CHR ''d'') = CHR ''d''"
  by (simp_all add: lower_char_def)

lemma str_replace_absent: "p \<notin> set s \<Longrightarrow> str_replace p r s = s"
  by (induction s) (auto simp: str_replace_def)

lemma set_str_replace: "set (str_replace p r s) \<subseteq> (set s - {p}) \<union> set r"
  by (induction s) (auto simp: str_replace_def)

lemma str_replace_keeps:
  assumes "\<forall>c\<in>set s. P c" and "\<forall>c\<in>set r. P c \<and> c \<noteq> p"
  shows "\<forall>c\<in>set (str_replace p r s). P c \<and> c \<noteq> p"
  using assms set_str_replace[of p r s] by blast

lemma py_lower_fixed: "\<forall>c\<in>set s. lower_char c = c \<Longrightarrow> py_lower s = s"
  by (induction s) (simp_all add: py_lower_def)

lemma set_py_strip: "set (py_strip s) \<subseteq> set s"
proof
  fix c assume "c \<in> set (py_strip s)"
  then have "c \<in> set (dropWhile py_isspace (rev (dropWhile py_isspace s)))"
    by (simp add: py_strip_def)
  then have "c \<in> set (rev (dropWhile py_isspace s))" by (rule set_dropWhileD)
  then have "c \<in> set (dropWhile py_isspace s)" by simp
  then show "c \<in> set s" by (rule set_dropWhileD)
qed

lemma settled_canonical: "settled (canonical h)"
proof -
  let ?a = "py_lower (py_strip h)"
  let ?b = "str_replace (CHR ''?'') '''' ?a"
  let ?c = "str_replace (CHR '' '') ''_'' ?b"
  let ?d = "str_replace (CHR ''&'') ''and'' ?c"
  let ?e = "str_replace (CHR ''-'') ''_'' ?d"
  have a: "\<forall>c\<in>set ?a. lower_char c = c"
    by (simp add: py_lower_def lower_char_idem)
  have b: "\<forall>c\<in>set ?b. lower_char c = c \<and> c \<noteq> CHR ''?''"
    by (rule str_replace_keeps[OF a]) simp
  have c: "\<forall>c\<in>set ?c. (lower_char c = c \<and> c \<noteq> CHR ''?'') \<and> c \<noteq> CHR '' ''"
    by (rule str_replace_keeps[OF b]) (simp add: lower_char_fixed)
  have d: "\<forall>c\<in>set ?d. ((lower_char c = c \<and> c \<noteq> CHR ''?'') \<and> c \<noteq> CHR '' '') \<and> c \<noteq> CHR ''&''"
    by (rule str_replace_keeps[OF c]) (simp add: lower_char_fixed)
  have e: "\<forall>c\<in>set ?e. (((lower_char c = c \<and> c \<noteq> CHR ''?'') \<and> c \<noteq> CHR '' '') \<and>
      c \<noteq> CHR ''&'') \<and> c \<noteq> CHR ''-''"
    by (rule str_replace_keeps[OF d]) (simp add: lower_char_fixed)
  show ?thesis unfolding settled_def canonical_def using e by blast
qed

lemma canonical_settled:
  assumes s: "settled s"
  shows "canonical s = py_strip s"
proof -
  have sub: "set (py_strip s) \<subseteq> set s" by (rule set_py_strip)
  have "\<forall>c\<in>set (py_strip s). lower_char c = c"
    using s sub unfolding settled_def by blast
  then have l: "py_lower (py_strip s) = py_strip s" by (rule py_lower_fixed)
  have "CHR ''?'' \<notin> set (py_strip s)" "CHR '' '' \<notin> set (py_strip s)"
       "CHR ''&'' \<notin> set (py_strip s)" "CHR ''-'' \<notin> set (py_strip s)"
    using s sub unfolding settled_def by blast+
  then show ?thesis
    by (simp add: canonical_def l str_replace_absent)
qed

lemma lower_char_cases:
  "lower_char c = c \<or>
   ((of_char (lower_char c) :: nat) = of_char c + 32 \<and>
    ((65 \<le> (of_char c :: nat) \<and> (of_char c :: nat) \<le> 90) \<or>
     (192 \<le> (of_char c :: nat) \<and> (of_char c :: nat) \<le> 214) \<or>
     (216 \<le> (of_char c :: nat) \<and> (of_char c :: nat) \<le> 222)))"
  by (auto simp: lower_char_def Let_def)

lemma lower_char_question: "lower_char c = CHR ''?'' \<Longrightarrow> c = CHR ''?''"
  using lower_char_cases[of c] by auto

lemma lower_char_y: "lower_char c = CHR ''y'' \<Longrightarrow> c = CHR ''y'' \<or> c = CHR ''Y''"
proof -
  assume a: "lower_char c = CHR ''y''"
  from lower_char_cases[of c] show ?thesis
  proof
    assume "lower_char c = c"
    with a show ?thesis by simp
  next
    assume "(of_char (lower_char c) :: nat) = of_char c + 32 \<and>
    ((65 \<le> (of_char c :: nat) \<and> (of_char c :: nat) \<le> 90) \<or>
     (192 \<le> (of_char c :: nat) \<and> (of_char c :: nat) \<le> 214) \<or>
     (216 \<le> (of_char c :: nat) \<and> (of_char c :: nat) \<le> 222))"
    with a have "(of_char c :: nat) = of_char (CHR ''Y'')" by simp
    then have "c = CHR ''Y''" by (simp only: of_char_eq_iff)
    then show ?thesis by simp
  qed
qed

lemma lower_char_space: "\<not> py_isspace c \<Longrightarrow> \<not> py_isspace (lower_char c)"
  using lower_char_cases[of c] by (auto simp: py_isspace_def Let_def)

lemma last_dropWhile: "dropWhile P xs \<noteq> [] \<Longrightarrow> last (dropWhile P xs) = last xs"
  by (metis last_appendR takeWhile_dropWhile_id)

lemma trimmed_strip: "trimmed (py_strip s)"
proof -
  let ?t = "dropWhile py_isspace s"
  let ?u = "dropWhile py_isspace (rev ?t)"
  show ?thesis
  proof (cases "?u = []")
    case True
    then show ?thesis by (simp add: trimmed_def py_strip_def)
  next
    case False
    have t: "?t \<noteq> []"
    proof
      assume "?t = []"
      then have "?u = []" by (simp only: rev.simps dropWhile.simps)
      with False show False by (rule notE)
    qed
    have "\<not> py_isspace (hd ?u)" using False by (rule hd_dropWhile)
    then have l: "\<not> py_isspace (last (rev ?u))" using False by (simp add: last_rev)
    have "last ?u = last (rev ?t)" using False by (rule last_dropWhile)
    also have "\<dots> = hd ?t" using t by (simp add: last_rev)
    finally have "hd (rev ?u) = hd ?t" using False by (simp add: hd_rev)
    moreover have "\<not> py_isspace (hd ?t)" using t by (rule hd_dropWhile)
    ultimately have "\<not> py_isspace (hd (rev ?u))" by simp
    with l show ?thesis by (simp add: trimmed_def py_strip_def)
  qed
qed

lemma strip_trimmed: "trimmed s \<Longrightarrow> py_strip s = s"
proof -
  assume t: "trimmed s"
  then have a: "dropWhile py_isspace s = s"
    by (auto simp: trimmed_def dropWhile_eq_self_iff)
  from t have "dropWhile py_isspace (rev s) = rev s"
    by (auto simp: trimmed_def dropWhile_eq_self_iff hd_rev)
  with a show ?thesis by (simp add: py_strip_def)
qed

lemma trimmed_lower: "trimmed s \<Longrightarrow> trimmed (py_lower s)"
  by (auto simp: trimmed_def py_lower_def hd_map last_map lower_char_space)

lemma str_replace_append:
  "str_replace p r (s @ t) = str_replace p r s @ str_replace p r t"
  by (simp add: str_replace_def)

lemma str_replace_Nil_iff: "r \<noteq> [] \<Longrightarrow> str_replace p r s = [] \<longleftrightarrow> s = []"
  by (cases s) (auto simp: str_replace_def)

lemma trimmed_replace:
  assumes "trimmed s" and "r \<noteq> []" and "\<not> py_isspace (hd r)" and "\<not> py_isspace (last r)"
  shows "trimmed (str_replace p r s)"
proof (cases "s = []")
  case True
  then show ?thesis by (simp add: trimmed_def str_replace_def)
next
  case False
  then obtain c t where ct: "s = c # t" by (cases s) auto
  have h: "hd (str_replace p r s) = (if c = p then hd r else c)"
    using assms(2) by (simp add: ct str_replace_def)
  have "s = butlast s @ [last s]" using False by simp
  then have "str_replace p r s = str_replace p r (butlast s) @ str_replace p r [last s]"
    using str_replace_append[of p r "butlast s" "[last s]"] by simp
  then have l: "last (str_replace p r s) = (if last s = p then last r else last s)"
    using assms(2) by (simp add: str_replace_def)
  from assms(1) False ct have "\<not> py_isspace c" "\<not> py_isspace (last s)"
    by (auto simp: trimmed_def)
  with h l assms(3,4) show ?thesis by (simp add: trimmed_def)
qed

lemma canonical_twice: "canonical (canonical h) = py_strip (canonical h)"
  by (rule canonical_settled[OF settled_canonical])

lemma trimmed_canonical:
  assumes "CHR ''?'' \<notin> set h"
  shows "trimmed (canonical h)"
proof -
  let ?a = "py_lower (py_strip h)"
  have "CHR ''?'' \<notin> set (py_strip h)" using assms set_py_strip[of h] by blast
  then have "CHR ''?'' \<notin> set ?a"
    using lower_char_question by (fastforce simp: py_lower_def)
  then have q: "str_replace (CHR ''?'') '''' ?a = ?a" by (rule str_replace_absent)
  have a: "trimmed ?a" by (rule trimmed_lower[OF trimmed_strip])
  have b: "trimmed (str_replace (CHR '' '') ''_'' ?a)"
    by (rule trimmed_replace[OF a]) (simp_all add: py_isspace_def)
  have c: "trimmed (str_replace (CHR ''&'') ''and'' (str_replace (CHR '' '') ''_'' ?a))"
    by (rule trimmed_replace[OF b]) (simp_all add: py_isspace_def)
  have "trimmed (str_replace (CHR ''-'') ''_''
          (str_replace (CHR ''&'') ''and'' (str_replace (CHR '' '') ''_'' ?a)))"
    by (rule trimmed_replace[OF c]) (simp_all add: py_isspace_def)
  then show ?thesis by (simp add: canonical_def q)
qed

section \<open>The row tuple, the loop and the database calls\<close>


lemma db_calls_ok: "db_calls e tr cs = (None, tr') \<Longrightarrow> tr' = tr @ cs"
proof (induction cs arbitrary: tr)
  case Nil
  then show ?case by simp
next
  case (Cons c cs)
  then have "db_calls e (tr @ [c]) cs = (None, tr')" by (simp split: if_splits)
  from Cons.IH[OF this] show ?case by simp
qed

lemma db_calls_err:
  "db_calls e tr cs = (Some x, tr') \<Longrightarrow> \<exists>n<length cs. tr' = tr @ take n cs \<and> x = DatabaseError (cs ! n)"
proof (induction cs arbitrary: tr)
  case Nil
  then show ?case by simp
next
  case (Cons c cs)
  show ?case
  proof (cases "db_raises e tr c")
    case True
    with Cons.prems have "tr' = tr @ take 0 (c # cs) \<and> x = DatabaseError ((c # cs) ! 0)" by simp
    then show ?thesis by blast
  next
    case False
    with Cons.prems have "db_calls e (tr @ [c]) cs = (Some x, tr')" by simp
    from Cons.IH[OF this] obtain n where n: "n < length cs" "tr' = (tr @ [c]) @ take n cs"
      "x = DatabaseError (cs ! n)" by blast
    then have "Suc n < length (c # cs) \<and> tr' = tr @ take (Suc n) (c # cs) \<and> x = DatabaseError ((c # cs) ! Suc n)"
      by simp
    then show ?thesis by blast
  qed
qed

lemma db_calls_never: "\<forall>tr c. \<not> db_raises e tr c \<Longrightarrow> db_calls e tr cs = (None, tr @ cs)"
  by (induction cs arbitrary: tr) auto

lemma getitem_Inl: "getitem row k = Inl x \<Longrightarrow> map_of row k = None \<and> x = KeyError k"
  by (auto simp: getitem_def split: option.splits)

lemma and_then_Inl: "and_then r f = Inl x \<Longrightarrow> r = Inl x \<or> (\<exists>v. r = Inr v \<and> f v = Inl x)"
  by (auto simp: and_then_def split: sum.splits)

lemma and_then_Inr: "and_then r f = Inr y \<Longrightarrow> \<exists>v. r = Inr v \<and> f v = Inr y"
  by (auto simp: and_then_def split: sum.splits)

lemma row_params_Inl:
  "row_params e row = Inl x \<Longrightarrow> \<exists>k\<in>set subscript_keys. map_of row k = None \<and> x = KeyError k"
  unfolding row_params_def subscript_keys_def
  by (auto dest!: and_then_Inl getitem_Inl)

lemma row_params_missing:
  "k \<in> set subscript_keys \<Longrightarrow> map_of row k = None \<Longrightarrow> \<exists>x. row_params e row = Inl x"
  unfolding row_params_def subscript_keys_def
  by (auto simp: and_then_def getitem_def split: sum.splits option.splits)

lemma row_params_Inr:
  "row_params e row = Inr ps \<Longrightarrow>
     \<exists>a b c d f g h m i j l.
       map_of row ''start'' = Some a \<and> map_of row ''end'' = Some b \<and>
       map_of row ''gender'' = Some c \<and> map_of row education_key = Some d \<and>
       map_of row ''province_of_origin'' = Some f \<and> map_of row age_key = Some g \<and>
       map_of row employment_key = Some h \<and> map_of row months_key = Some m \<and>
       map_of row income_key = Some i \<and> map_of row applications_key = Some j \<and>
       map_of row changes_key = Some l \<and>
       ps = [a, b, c, d, f, g, PyBool (rural_to_urban e row), h,
             or_zero m, or_zero i, or_zero j, or_zero l]"
  unfolding row_params_def
  by (auto simp: and_then_def getitem_def split: sum.splits option.splits)


lemma insert_rows_trace:
  "insert_rows e rs tr = (r, tr') \<Longrightarrow>
     \<exists>ins. tr' = tr @ ins \<and>
       (\<forall>c\<in>set ins. \<exists>row\<in>set rs. \<exists>ps. row_params e row = Inr ps \<and> c = Execute (Insert ps))"
proof (induction rs arbitrary: tr)
  case Nil
  then show ?case by simp
next
  case (Cons row rs)
  show ?case
  proof (cases "row_params e row")
    case (Inl x)
    with Cons.prems have "tr' = tr @ []" by simp
    then show ?thesis by (intro exI[of _ "[]"]) simp
  next
    case (Inr ps)
    show ?thesis
    proof (cases "db_raises e tr (Execute (Insert ps))")
      case True
      with Inr Cons.prems have "tr' = tr @ []" by simp
      then show ?thesis by (intro exI[of _ "[]"]) simp
    next
      case False
      with Inr Cons.prems have "insert_rows e rs (tr @ [Execute (Insert ps)]) = (r, tr')" by simp
      from Cons.IH[OF this] obtain ins where ins: "tr' = (tr @ [Execute (Insert ps)]) @ ins"
        "\<forall>c\<in>set ins. \<exists>row\<in>set rs. \<exists>ps. row_params e row = Inr ps \<and> c = Execute (Insert ps)"
        by blast
      let ?ins = "Execute (Insert ps) # ins"
      have "tr' = tr @ ?ins" using ins(1) by simp
      moreover have "\<forall>c\<in>set ?ins. \<exists>row\<in>set (row # rs). \<exists>ps. row_params e row = Inr ps \<and> c = Execute (Insert ps)"
        using ins(2) Inr by auto
      ultimately show ?thesis by (intro exI[of _ ?ins] conjI)
    qed
  qed
qed

lemma insert_rows_err:
  "insert_rows e rs tr = (Some x, tr') \<Longrightarrow>
     (\<exists>row\<in>set rs. row_params e row = Inl x) \<or> (\<exists>ps. x = DatabaseError (Execute (Insert ps)))"
proof (induction rs arbitrary: tr)
  case Nil
  then show ?case by simp
next
  case (Cons row rs)
  show ?case
  proof (cases "row_params e row")
    case (Inl y)
    with Cons.prems show ?thesis by simp
  next
    case (Inr ps)
    show ?thesis
    proof (cases "db_raises e tr (Execute (Insert ps))")
      case True
      with Inr Cons.prems show ?thesis by auto
    next
      case False
      with Inr Cons.prems have "insert_rows e rs (tr @ [Execute (Insert ps)]) = (Some x, tr')" by simp
      from Cons.IH[OF this] show ?thesis by auto
    qed
  qed
qed

lemma index_of_None: "index_of k xs = None \<longleftrightarrow> k \<notin> set xs"
  by (induction xs) auto

lemma to_datetime_column_Inl:
  "to_datetime_column e k df = Inl x \<Longrightarrow> x = KeyError k \<and> k \<notin> set (columns df)"
  by (auto simp: to_datetime_column_def Let_def index_of_None[symmetric] split: option.splits)

lemma to_datetime_column_Inr:
  "to_datetime_column e k df = Inr df' \<Longrightarrow>
     k \<in> set (columns df) \<and> columns df' = columns df \<and> length (rows df') = length (rows df)"
  using index_of_None[of k "columns df"]
  by (auto simp: to_datetime_column_def Let_def split: option.splits)

lemma to_datetime_column_present:
  "k \<in> set (columns df) \<Longrightarrow> \<exists>df'. to_datetime_column e k df = Inr df'"
  using index_of_None[of k "columns df"]
  by (auto simp: to_datetime_column_def Let_def split: option.splits)

lemma to_datetime_column_rect:
  assumes "to_datetime_column e k df = Inr df'" and "r' \<in> set (rows df')"
    and "\<forall>r\<in>set (rows df). length r = n"
  shows "length r' = n"
proof -
  from assms(1) obtain j where
    df': "rows df' = map (\<lambda>(r, v). r[j := v])
            (zip (rows df) (map (coerce_datetime e (map (\<lambda>r. r ! j) (rows df)))
               [0..<length (map (\<lambda>r. r ! j) (rows df))]))"
    by (auto simp: to_datetime_column_def Let_def split: option.splits)
  with assms(2) obtain r v where "r \<in> set (rows df)" "r' = r[j := v]"
    by (auto dest: set_zip_leftD)
  with assms(3) show ?thesis by simp
qed

lemma normalize_Inl:
  "normalize e df = Inl x \<Longrightarrow>
     (x = KeyError ''start'' \<and> ''start'' \<notin> set (map canonical (columns df))) \<or>
     (x = KeyError ''end'' \<and> ''end'' \<notin> set (map canonical (columns df)))"
  unfolding normalize_def
  by (auto dest!: and_then_Inl to_datetime_column_Inl to_datetime_column_Inr
      simp: where_notnull_def rename_columns_def)

lemma normalize_Inr:
  "normalize e df = Inr df' \<Longrightarrow>
     columns df' = map canonical (columns df) \<and> length (rows df') = length (rows df) \<and>
     ''start'' \<in> set (columns df') \<and> ''end'' \<in> set (columns df')"
  unfolding normalize_def
  by (auto dest!: and_then_Inr to_datetime_column_Inr simp: where_notnull_def rename_columns_def)

lemma normalize_present:
  assumes "''start'' \<in> set (map canonical (columns df))" "''end'' \<in> set (map canonical (columns df))"
  shows "\<exists>df'. normalize e df = Inr df'"
proof -
  let ?d = "where_notnull (rename_columns df)"
  have "''start'' \<in> set (columns ?d)" using assms(1) by (simp add: where_notnull_def rename_columns_def)
  from to_datetime_column_present[OF this] obtain d1 where d1: "to_datetime_column e ''start'' ?d = Inr d1"
    by blast
  from to_datetime_column_Inr[OF d1] have "''end'' \<in> set (columns d1)"
    using assms(2) by (simp add: where_notnull_def rename_columns_def)
  from to_datetime_column_present[OF this] obtain d2 where "to_datetime_column e ''end'' d1 = Inr d2"
    by blast
  with d1 show ?thesis by (simp add: normalize_def and_then_def)
qed

lemma normalize_rect:
  assumes "normalize e df = Inr df'" and "r' \<in> set (rows df')"
    and "list_all (\<lambda>r. length r = length (columns df)) (rows df)"
  shows "length r' = length (columns df')"
proof -
  let ?d = "where_notnull (rename_columns df)"
  from assms(1) obtain d1 where d1: "to_datetime_column e ''start'' ?d = Inr d1"
    and d2: "to_datetime_column e ''end'' d1 = Inr df'"
    unfolding normalize_def by (auto dest!: and_then_Inr)
  have r0: "\<forall>r\<in>set (rows ?d). length r = length (columns df)"
    using assms(3) by (auto simp: where_notnull_def rename_columns_def list_all_iff)
  have r1: "\<forall>r\<in>set (rows d1). length r = length (columns df)"
    using to_datetime_column_rect[OF d1 _ r0] by blast
  have "length r' = length (columns df)"
    by (rule to_datetime_column_rect[OF d2 assms(2) r1])
  moreover have "length (columns df') = length (columns df)"
    using normalize_Inr[OF assms(1)] by simp
  ultimately show ?thesis by simp
qed


lemma insert_rows_all_fail:
  assumes "rs \<noteq> []" and "\<forall>row\<in>set rs. \<exists>x. row_params e row = Inl x"
  shows "fst (insert_rows e rs tr) \<noteq> None"
proof (cases rs)
  case Nil
  with assms(1) show ?thesis by simp
next
  case (Cons row rest)
  with assms(2) obtain x where "row_params e row = Inl x" by auto
  with Cons show ?thesis by simp
qed

lemma insert_rows_all_ok:
  assumes "\<forall>tr c. \<not> db_raises e tr c"
  shows "\<forall>row\<in>set rs. \<exists>ps. row_params e row = Inr ps \<Longrightarrow>
     \<exists>ins. insert_rows e rs tr = (None, tr @ ins) \<and> length ins = length rs \<and>
       (\<forall>c\<in>set ins. is_insert c)"
proof (induction rs arbitrary: tr)
  case Nil
  then show ?case by simp
next
  case (Cons row rs)
  then obtain ps where ps: "row_params e row = Inr ps" by auto
  from Cons obtain ins where ins: "insert_rows e rs (tr @ [Execute (Insert ps)]) = (None, (tr @ [Execute (Insert ps)]) @ ins)"
    "length ins = length rs" "\<forall>c\<in>set ins. is_insert c" by fastforce
  let ?ins = "Execute (Insert ps) # ins"
  have "insert_rows e (row # rs) tr = (None, tr @ ?ins)" using ps ins(1) assms by simp
  moreover have "length ?ins = length (row # rs)" using ins(2) by simp
  moreover have "\<forall>c\<in>set ?ins. is_insert c" using ins(3) by (simp add: is_insert_def)
  ultimately show ?case by (intro exI[of _ ?ins] conjI)
qed

lemma upload_trace:
  assumes "upload e df = (r, tr)"
  shows "\<exists>n ins m. n \<le> 5 \<and> m \<le> 3 \<and> tr = take n opening_calls @ ins @ take m closing_calls \<and>
           (\<forall>c\<in>set ins. \<exists>row\<in>set (iterrows df). \<exists>ps. row_params e row = Inr ps \<and> c = Execute (Insert ps)) \<and>
           (r = None \<longleftrightarrow> m = 3) \<and> (m = 3 \<longrightarrow> n = 5)"
proof -
  obtain a t1 where o: "db_calls e [] opening_calls = (a, t1)" by (cases "db_calls e [] opening_calls")
  show ?thesis
  proof (cases a)
    case (Some x)
    from db_calls_err[OF o[unfolded Some]] obtain n where n: "n < length opening_calls" "t1 = take n opening_calls"
      by auto
    from assms o Some have "r = Some x" "tr = t1" by (simp_all add: upload_def)
    with n show ?thesis
      by (intro exI[of _ n] exI[of _ "[]"] exI[of _ 0]) (simp add: opening_calls_def)
  next
    case None
    from db_calls_ok[OF o[unfolded None]] have t1: "t1 = opening_calls" by simp
    obtain b t2 where i: "insert_rows e (iterrows df) t1 = (b, t2)" by (cases "insert_rows e (iterrows df) t1")
    from insert_rows_trace[OF i] obtain ins where ins: "t2 = t1 @ ins"
      "\<forall>c\<in>set ins. \<exists>row\<in>set (iterrows df). \<exists>ps. row_params e row = Inr ps \<and> c = Execute (Insert ps)"
      by blast
    show ?thesis
    proof (cases b)
      case (Some x)
      from assms o None i Some have "r = Some x" "tr = t2" by (simp_all add: upload_def)
      with ins t1 show ?thesis
        by (intro exI[of _ 5] exI[of _ ins] exI[of _ 0]) (simp add: opening_calls_def)
    next
      case bNone: None
      from assms o None i bNone have c: "db_calls e t2 closing_calls = (r, tr)" by (simp add: upload_def)
      show ?thesis
      proof (cases r)
        case rNone: None
        from db_calls_ok[OF c[unfolded rNone]] have "tr = t2 @ closing_calls" .
        with ins t1 rNone show ?thesis
          by (intro exI[of _ 5] exI[of _ ins] exI[of _ 3]) (simp add: opening_calls_def closing_calls_def)
      next
        case (Some x)
        from db_calls_err[OF c[unfolded Some]] obtain m where m: "m < length closing_calls" "tr = t2 @ take m closing_calls"
          by auto
        with ins t1 Some show ?thesis
          by (intro exI[of _ 5] exI[of _ ins] exI[of _ m]) (simp add: opening_calls_def closing_calls_def)
      qed
    qed
  qed
qed

lemma upload_None:
  "upload e df = (None, tr) \<Longrightarrow> \<exists>t1 t2. insert_rows e (iterrows df) t1 = (None, t2)"
  by (auto simp: upload_def split: prod.splits option.splits)

lemma upload_all_ok:
  assumes "\<forall>tr c. \<not> db_raises e tr c"
    and "\<forall>row\<in>set (iterrows df). \<exists>ps. row_params e row = Inr ps"
  shows "\<exists>ins. upload e df = (None, opening_calls @ ins @ closing_calls) \<and>
           length ins = length (rows df) \<and> (\<forall>c\<in>set ins. is_insert c)"
proof -
  have o: "db_calls e [] opening_calls = (None, opening_calls)"
    using db_calls_never[OF assms(1), of "[]"] by simp
  from insert_rows_all_ok[OF assms(1) assms(2), of opening_calls] obtain ins where
    ins: "insert_rows e (iterrows df) opening_calls = (None, opening_calls @ ins)"
      "length ins = length (iterrows df)" "\<forall>c\<in>set ins. is_insert c" by blast
  have "upload e df = (None, opening_calls @ ins @ closing_calls)"
    using o ins(1) db_calls_never[OF assms(1), of "opening_calls @ ins" closing_calls]
    by (simp add: upload_def)
  with ins(2,3) show ?thesis by (intro exI[of _ ins]) (simp add: iterrows_def)
qed



lemma db_calls_accepted:
  "\<forall>c\<in>set cs. \<forall>tr. \<not> db_raises e tr c \<Longrightarrow> db_calls e tr cs = (None, tr @ cs)"
  by (induction cs arbitrary: tr) auto

lemma iterrows_missing_key:
  assumes "row \<in> set (iterrows df)" and "k \<notin> set (columns df)"
  shows "map_of row k = None"
proof -
  from assms(1) obtain r where "row = zip (columns df) r" by (auto simp: iterrows_def)
  with assms(2) show ?thesis
    by (auto simp: map_of_eq_None_iff dest: set_zip_leftD)
qed

lemma iterrows_None_absent:
  assumes "row \<in> set (iterrows df)" and "map_of row k = None"
    and "\<forall>r\<in>set (rows df). length r = length (columns df)"
  shows "k \<notin> set (columns df)"
proof -
  from assms(1) obtain r where r: "row = zip (columns df) r" "r \<in> set (rows df)"
    by (auto simp: iterrows_def)
  with assms(3) have "length (columns df) = length r" by simp
  from map_of_zip_is_None[OF this] assms(2) r(1) show ?thesis by simp
qed

lemma opening_closing_no_insert:
  "Execute (Insert ps) \<notin> set (take n opening_calls)" "Execute (Insert ps) \<notin> set (take m closing_calls)"
  by (auto simp: opening_calls_def closing_calls_def dest!: in_set_takeD)

lemma upload_first_row_fails:
  assumes "\<forall>c\<in>set opening_calls. \<forall>tr. \<not> db_raises e tr c"
    and "iterrows df = row # rest" and "row_params e row = Inl x"
  shows "upload e df = (Some x, opening_calls)"
  using db_calls_accepted[OF assms(1), of "[]"] assms(2,3) by (simp add: upload_def)

lemma upload_err:
  assumes "upload e df = (Some x, tr)"
  shows "(\<exists>c. x = DatabaseError c) \<or> (\<exists>row\<in>set (iterrows df). row_params e row = Inl x)"
proof -
  obtain a t1 where o: "db_calls e [] opening_calls = (a, t1)" by (cases "db_calls e [] opening_calls")
  show ?thesis
  proof (cases a)
    case (Some y)
    with assms o have "y = x" by (simp add: upload_def)
    with db_calls_err[OF o[unfolded Some]] show ?thesis by blast
  next
    case None
    obtain b t2 where i: "insert_rows e (iterrows df) t1 = (b, t2)" by (cases "insert_rows e (iterrows df) t1")
    show ?thesis
    proof (cases b)
      case (Some y)
      with assms o None i have "y = x" by (simp add: upload_def)
      with insert_rows_err[OF i[unfolded Some]] show ?thesis by blast
    next
      case bNone: None
      with assms o None i have "db_calls e t2 closing_calls = (Some x, tr)" by (simp add: upload_def)
      from db_calls_err[OF this] show ?thesis by blast
    qed
  qed
qed

lemma run_200:
  assumes "status_code (response e) = 200" and "read_csv e (body_text (response e)) = Some df"
  shows "run e = (case normalize e df of Inl err \<Rightarrow> (Some err, []) | Inr df' \<Rightarrow> upload e df')"
  using assms by (simp add: run_def fetch_def)

lemma index_of_Some: "index_of k xs = Some j \<Longrightarrow> j < length xs \<and> xs ! j = k"
proof (induction xs arbitrary: j)
  case Nil
  then show ?case by simp
next
  case (Cons x xs)
  show ?case
  proof (cases "x = k")
    case True
    with Cons.prems show ?thesis by simp
  next
    case False
    with Cons.prems obtain j' where j': "index_of k xs = Some j'" "j = Suc j'" by auto
    from Cons.IH[OF j'(1)] j'(2) show ?thesis by simp
  qed
qed

lemma to_datetime_column_row:
  assumes "to_datetime_column e k df = Inr df'" and "i < length (rows df)"
  shows "\<exists>jk v. index_of k (columns df) = Some jk \<and> rows df' ! i = (rows df ! i)[jk := v]"
proof -
  from assms(1) obtain jk where jk: "index_of k (columns df) = Some jk"
    and df': "rows df' = map (\<lambda>(r, v). r[jk := v])
            (zip (rows df) (map (coerce_datetime e (map (\<lambda>r. r ! jk) (rows df)))
               [0..<length (map (\<lambda>r. r ! jk) (rows df))]))"
    by (auto simp: to_datetime_column_def Let_def split: option.splits)
  from assms(2) have "rows df' ! i =
      (rows df ! i)[jk := coerce_datetime e (map (\<lambda>r. r ! jk) (rows df)) i]"
    by (simp add: df')
  with jk show ?thesis by blast
qed

lemma to_datetime_column_other:
  assumes c: "to_datetime_column e k df = Inr df'" and i: "i < length (rows df)"
    and j: "j < length (columns df)" "columns df ! j \<noteq> k"
  shows "rows df' ! i ! j = rows df ! i ! j"
proof -
  from to_datetime_column_row[OF c i] obtain jk v where jk: "index_of k (columns df) = Some jk"
    "rows df' ! i = (rows df ! i)[jk := v]" by blast
  from index_of_Some[OF jk(1)] j(2) have "jk \<noteq> j" by auto
  with jk(2) show ?thesis by simp
qed

lemma where_notnull_cell:
  assumes "i < length (rows df)" and "j < length (rows df ! i)"
  shows "rows (where_notnull df) ! i ! j = where_cell (frame_column df j) (rows df ! i ! j)"
  using assms by (simp add: where_notnull_def nth_enumerate_eq)

lemma normalized_cell:
  assumes wf: "well_formed df" and n: "normalize e df = Inr df'"
    and i: "i < length (rows df)" and j: "j < length (columns df)"
    and k: "canonical (columns df ! j) \<noteq> ''start''" "canonical (columns df ! j) \<noteq> ''end''"
  shows "map_of (iterrows df' ! i) (canonical (columns df ! j)) =
           Some (where_cell (frame_column df j) (rows df ! i ! j))"
proof -
  let ?d0 = "where_notnull (rename_columns df)"
  from n obtain d1 where d1: "to_datetime_column e ''start'' ?d0 = Inr d1"
    and d2: "to_datetime_column e ''end'' d1 = Inr df'"
    unfolding normalize_def by (auto dest!: and_then_Inr)
  have len: "length (rows df ! i) = length (columns df)"
    using wf i by (simp add: well_formed_def list_all_length)
  have c0: "columns ?d0 = map canonical (columns df)" "length (rows ?d0) = length (rows df)"
    by (simp_all add: where_notnull_def rename_columns_def)
  have "rows ?d0 ! i ! j =
      where_cell (frame_column (rename_columns df) j) (rows (rename_columns df) ! i ! j)"
    using i j len by (intro where_notnull_cell) (simp_all add: rename_columns_def)
  then have v0: "rows ?d0 ! i ! j = where_cell (frame_column df j) (rows df ! i ! j)"
    by (simp add: rename_columns_def frame_column_def)
  note r1 = to_datetime_column_Inr[OF d1]
  have v1: "rows d1 ! i ! j = rows ?d0 ! i ! j"
    using to_datetime_column_other[OF d1, of i j] i j k(1) c0 by simp
  have v2: "rows df' ! i ! j = rows d1 ! i ! j"
    using to_datetime_column_other[OF d2, of i j] i j k(2) c0 r1 by simp
  note nr = normalize_Inr[OF n]
  have i': "i < length (rows df')" using nr i by simp
  have rl: "length (rows df' ! i) = length (columns df')"
    using normalize_rect[OF n, of "rows df' ! i"] i' wf by (simp add: well_formed_def)
  have row: "iterrows df' ! i = zip (columns df') (rows df' ! i)"
    using i' by (simp add: iterrows_def)
  have d: "distinct (columns df')" using wf nr by (simp add: well_formed_def)
  have "map_of (zip (columns df') (rows df' ! i)) (columns df' ! j) = Some (rows df' ! i ! j)"
    using rl d j nr by (intro map_of_zip_nth) simp_all
  with row nr j v0 v1 v2 show ?thesis by simp
qed

section \<open>The canonical column names\<close>

text \<open>
  C4, as the script has it. The canonical name is the chain of the six steps, in the order
  trim, lowercase, remove the question marks, spaces to underscores, ampersand to the word
  and, hyphens to underscores; being a function, it gives one result for one header.
  Applying it to its own result is the same as trimming that result once more. So the
  chain is idempotent on every header whose canonical name has no whitespace at its ends,
  which is the case for every header without a question mark.
\<close>

theorem canonical_chain_idempotent_up_to_trim:
  "canonical h =
     str_replace (CHR ''-'') ''_'' (str_replace (CHR ''&'') ''and''
       (str_replace (CHR '' '') ''_'' (str_replace (CHR ''?'') '''' (py_lower (py_strip h))))) \<and>
   canonical (canonical h) = py_strip (canonical h) \<and>
   (trimmed (canonical h) \<longrightarrow> canonical (canonical h) = canonical h) \<and>
   (CHR ''?'' \<notin> set h \<longrightarrow> canonical (canonical h) = canonical h)"
proof (intro conjI impI)
  show "canonical h =
     str_replace (CHR ''-'') ''_'' (str_replace (CHR ''&'') ''and''
       (str_replace (CHR '' '') ''_'' (str_replace (CHR ''?'') '''' (py_lower (py_strip h)))))"
    by (rule canonical_def)
  show "canonical (canonical h) = py_strip (canonical h)" by (rule canonical_twice)
  show "canonical (canonical h) = canonical h" if "trimmed (canonical h)"
    using canonical_twice[of h] strip_trimmed[OF that] by simp
  show "canonical (canonical h) = canonical h" if "CHR ''?'' \<notin> set h"
    using canonical_twice[of h] strip_trimmed[OF trimmed_canonical[OF that]] by simp
qed

lemma income_label_facts:
  "CHR ''?'' \<notin> set '' Average monthly Income & Savings (RWF) - current ''"
  "canonical '' Average monthly Income & Savings (RWF) - current '' =
     ''average_monthly_income_and_savings_(rwf)___current''"
  "trimmed (canonical '' Average monthly Income & Savings (RWF) - current '')"
  by code_simp+

theorem canonical_chain_idempotent_up_to_trim_witness:
  "canonical (canonical '' Average monthly Income & Savings (RWF) - current '') =
     canonical '' Average monthly Income & Savings (RWF) - current '' \<and>
   canonical '' Average monthly Income & Savings (RWF) - current '' =
     ''average_monthly_income_and_savings_(rwf)___current''"
  using canonical_chain_idempotent_up_to_trim[of
      "'' Average monthly Income & Savings (RWF) - current ''"]
    income_label_facts
  by blast

text \<open>
  C4 as stated asks for idempotence on every header. A header that ends in a tab and a
  question mark: the first pass trims nothing, then removes the question mark and leaves
  the tab at the end; the second pass trims the tab.
\<close>

theorem canonical_not_idempotent_after_question_mark:
  "canonical [CHR ''A'', CHR ''g'', CHR ''e'', CHR 0x09, CHR ''?''] =
     [CHR ''a'', CHR ''g'', CHR ''e'', CHR 0x09] \<and>
   canonical (canonical [CHR ''A'', CHR ''g'', CHR ''e'', CHR 0x09, CHR ''?'']) = ''age'' \<and>
   canonical (canonical [CHR ''A'', CHR ''g'', CHR ''e'', CHR 0x09, CHR ''?'']) \<noteq>
     canonical [CHR ''A'', CHR ''g'', CHR ''e'', CHR 0x09, CHR ''?'']"
  by code_simp

section \<open>The fetch\<close>

text \<open>
  C1, as the script has it. The fetch succeeds on status 200 and on no other status: on
  200 it returns the body of the response as text, on every other status, the other 2xx
  ones too, it fails with the error that carries the status code. Every status is in one
  of the two cases.
\<close>

theorem fetch_succeeds_exactly_on_200:
  "(status_code r = 200 \<longrightarrow> fetch r = Inr (body_text r)) \<and>
   (status_code r \<noteq> 200 \<longrightarrow> fetch r = Inl (FetchError (status_code r)))"
  by (simp add: fetch_def)

theorem fetch_succeeds_exactly_on_200_witness:
  "fetch \<lparr>status_code = 200, body_text = ''start;end''\<rparr> = Inr ''start;end'' \<and>
   fetch \<lparr>status_code = 401, body_text = ''denied''\<rparr> = Inl (FetchError 401)"
  using fetch_succeeds_exactly_on_200[of "\<lparr>status_code = 200, body_text = ''start;end''\<rparr>"]
    fetch_succeeds_exactly_on_200[of "\<lparr>status_code = 401, body_text = ''denied''\<rparr>"]
  by simp

text \<open>
  C1 as stated asks for success on every 2xx status. Status 204 is a 2xx status, and the
  fetch fails on it.
\<close>

theorem fetch_rejects_204:
  "is_2xx 204 \<and> fetch \<lparr>status_code = 204, body_text = ''''\<rparr> = Inl (FetchError 204)"
  by (simp add: is_2xx_def fetch_def)

text \<open>
  C7. When the status of the response is not 200 (so for every status that is not a 2xx
  one, 401 among them), the run ends with the fetch error and no database call has been
  made: no connection, no drop, no create, no insert.
\<close>

theorem failed_fetch_leaves_database_untouched:
  "status_code (response e) \<noteq> 200 \<Longrightarrow>
     run e = (Some (FetchError (status_code (response e))), [])"
  by (simp add: run_def fetch_def)

theorem failed_fetch_leaves_database_untouched_witness:
  "run (survey_env 401 (survey_frame [survey_row])) = (Some (FetchError 401), [])"
  using failed_fetch_leaves_database_untouched[of "survey_env 401 (survey_frame [survey_row])"]
  by (simp add: survey_env_def)

section \<open>The connection and the cursor\<close>

lemma run_cases:
  "(\<exists>x. run e = (Some x, [])) \<or> (\<exists>df'. run e = upload e df')"
  by (auto simp: run_def split: sum.splits option.splits)

lemma opening_take_no_close: "ConnectionClose \<notin> set (take n opening_calls)"
  by (auto simp: opening_calls_def dest!: in_set_takeD)

lemma closing_take_no_close: "m < 3 \<Longrightarrow> ConnectionClose \<notin> set (take m closing_calls)"
proof -
  assume "m < 3"
  then have "m = 0 \<or> m = 1 \<or> m = 2" by arith
  then show ?thesis by (auto simp: closing_calls_def)
qed

lemma count_take_opening:
  "length (filter (\<lambda>c. c = x) (take n opening_calls)) \<le> length (filter (\<lambda>c. c = x) opening_calls)"
proof -
  have "length (filter (\<lambda>c. c = x) opening_calls) =
        length (filter (\<lambda>c. c = x) (take n opening_calls)) +
        length (filter (\<lambda>c. c = x) (drop n opening_calls))"
    by (metis append_take_drop_id filter_append length_append)
  then show ?thesis by simp
qed

lemma upload_acquire_release:
  assumes "upload e df = (r, tr)"
  shows "length (filter (\<lambda>c. c = Connect) tr) \<le> 1 \<and> length (filter (\<lambda>c. c = Cursor) tr) \<le> 1 \<and>
     (r = None \<longrightarrow> (\<exists>ins. (\<forall>c\<in>set ins. is_insert c) \<and> tr = opening_calls @ ins @ closing_calls)) \<and>
     (r \<noteq> None \<longrightarrow> ConnectionClose \<notin> set tr)"
proof -
  from upload_trace[OF assms] obtain n ins m where s: "n \<le> 5" "m \<le> 3"
    "tr = take n opening_calls @ ins @ take m closing_calls"
    "\<forall>c\<in>set ins. \<exists>row\<in>set (iterrows df). \<exists>ps. row_params e row = Inr ps \<and> c = Execute (Insert ps)"
    "r = None \<longleftrightarrow> m = 3" "m = 3 \<longrightarrow> n = 5" by blast
  have ins: "\<forall>c\<in>set ins. is_insert c" using s(4) by (auto simp: is_insert_def)
  have f1: "filter (\<lambda>c. c = Connect) ins = []" "filter (\<lambda>c. c = Cursor) ins = []"
    using ins by (auto simp: filter_empty_conv is_insert_def)
  have f2: "filter (\<lambda>c. c = Connect) (take m closing_calls) = []"
    "filter (\<lambda>c. c = Cursor) (take m closing_calls) = []"
    by (auto simp: filter_empty_conv closing_calls_def dest!: in_set_takeD)
  have c1: "length (filter (\<lambda>c. c = Connect) tr) \<le> 1"
    using count_take_opening[of Connect n] by (simp add: s(3) f1 f2 opening_calls_def)
  have c2: "length (filter (\<lambda>c. c = Cursor) tr) \<le> 1"
    using count_take_opening[of Cursor n] by (simp add: s(3) f1 f2 opening_calls_def)
  have c3: "r = None \<longrightarrow> (\<exists>ins. (\<forall>c\<in>set ins. is_insert c) \<and> tr = opening_calls @ ins @ closing_calls)"
  proof
    assume "r = None"
    with s have "m = 3" "n = 5" by simp_all
    then have "tr = opening_calls @ ins @ closing_calls"
      using s(3) by (simp add: opening_calls_def closing_calls_def)
    with ins show "\<exists>ins. (\<forall>c\<in>set ins. is_insert c) \<and> tr = opening_calls @ ins @ closing_calls"
      by blast
  qed
  have c4: "r \<noteq> None \<longrightarrow> ConnectionClose \<notin> set tr"
  proof
    assume "r \<noteq> None"
    with s have "m < 3" by simp
    from closing_take_no_close[OF this] opening_take_no_close[of n] ins
    show "ConnectionClose \<notin> set tr" by (auto simp: s(3) is_insert_def)
  qed
  from c1 c2 c3 c4 show ?thesis by blast
qed

lemma upload_cursor_closed:
  assumes "upload e df = (Some x, tr)" and "CursorClose \<in> set tr"
  shows "x = DatabaseError ConnectionClose"
proof -
  obtain a t1 where o: "db_calls e [] opening_calls = (a, t1)"
    by (cases "db_calls e [] opening_calls")
  show ?thesis
  proof (cases a)
    case (Some y)
    with assms(1) o have "tr = t1" by (simp add: upload_def)
    with db_calls_err[OF o[unfolded Some]] obtain n where "tr = take n opening_calls" by auto
    with assms(2) show ?thesis by (auto simp: opening_calls_def dest!: in_set_takeD)
  next
    case None
    from db_calls_ok[OF o[unfolded None]] have t1: "t1 = opening_calls" by simp
    obtain b t2 where i: "insert_rows e (iterrows df) t1 = (b, t2)"
      by (cases "insert_rows e (iterrows df) t1")
    from insert_rows_trace[OF i] obtain ins where ins: "t2 = t1 @ ins"
      "\<forall>c\<in>set ins. \<exists>row\<in>set (iterrows df). \<exists>ps.
          row_params e row = Inr ps \<and> c = Execute (Insert ps)"
      by blast
    have noc: "CursorClose \<notin> set t2" using ins t1 by (auto simp: opening_calls_def)
    show ?thesis
    proof (cases b)
      case (Some y)
      with assms(1) o None i have "tr = t2" by (simp add: upload_def)
      with noc assms(2) show ?thesis by simp
    next
      case bNone: None
      with assms(1) o None i have c: "db_calls e t2 closing_calls = (Some x, tr)"
        by (simp add: upload_def)
      from db_calls_err[OF c] obtain m where m: "m < length closing_calls"
        "tr = t2 @ take m closing_calls" "x = DatabaseError (closing_calls ! m)" by auto
      from m(1) have "m = 0 \<or> m = 1 \<or> m = 2" by (simp add: closing_calls_def) arith
      with m(2) noc assms(2) have "m = 2" by (auto simp: closing_calls_def)
      with m(3) show ?thesis by (simp add: closing_calls_def)
    qed
  qed
qed

lemma run_before_upload:
  assumes "(\<exists>x. fetch (response e) = Inl x) \<or>
     (\<exists>txt. fetch (response e) = Inr txt \<and>
        (read_csv e txt = None \<or> (\<exists>df x. read_csv e txt = Some df \<and> normalize e df = Inl x)))"
  shows "snd (run e) = []"
  using assms by (auto simp: run_def)

text \<open>
  C8, as the script has it. In one run the connection and the cursor are each acquired at
  most once, and not at all (no database call is made) when the fetch, the parse or the
  lookup of a timestamp column fails. The two close calls are the last statements of the
  script: a run that ends without an error made the five opening calls, then only
  inserts, then commit, cursor close, connection close. A run that ends with an error
  never closed the connection, and closed the cursor only when the call that raised is the
  connection close itself.
\<close>

theorem connection_closed_only_on_clean_exit:
  "length (filter (\<lambda>c. c = Connect) (snd (run e))) \<le> 1 \<and>
   length (filter (\<lambda>c. c = Cursor) (snd (run e))) \<le> 1 \<and>
   (fst (run e) = None \<longrightarrow>
      (\<exists>ins. (\<forall>c\<in>set ins. is_insert c) \<and> snd (run e) = opening_calls @ ins @ closing_calls)) \<and>
   (fst (run e) \<noteq> None \<longrightarrow> ConnectionClose \<notin> set (snd (run e))) \<and>
   (fst (run e) \<noteq> None \<and> CursorClose \<in> set (snd (run e)) \<longrightarrow>
      fst (run e) = Some (DatabaseError ConnectionClose)) \<and>
   ((\<exists>x. fetch (response e) = Inl x) \<or>
    (\<exists>txt. fetch (response e) = Inr txt \<and>
       (read_csv e txt = None \<or> (\<exists>df x. read_csv e txt = Some df \<and> normalize e df = Inl x)))
    \<longrightarrow> snd (run e) = [])"
proof -
  have early: "(\<exists>x. fetch (response e) = Inl x) \<or>
    (\<exists>txt. fetch (response e) = Inr txt \<and>
       (read_csv e txt = None \<or> (\<exists>df x. read_csv e txt = Some df \<and> normalize e df = Inl x)))
    \<longrightarrow> snd (run e) = []"
    using run_before_upload[of e] by blast
  from run_cases[of e] show ?thesis
  proof
    assume "\<exists>x. run e = (Some x, [])"
    then show ?thesis using early by auto
  next
    assume "\<exists>df'. run e = upload e df'"
    then obtain df' where u: "upload e df' = (fst (run e), snd (run e))" by auto
    have cur: "fst (run e) \<noteq> None \<and> CursorClose \<in> set (snd (run e)) \<longrightarrow>
      fst (run e) = Some (DatabaseError ConnectionClose)"
    proof
      assume a: "fst (run e) \<noteq> None \<and> CursorClose \<in> set (snd (run e))"
      then obtain x where x: "fst (run e) = Some x" by auto
      from upload_cursor_closed[OF u[unfolded x]] a x
      show "fst (run e) = Some (DatabaseError ConnectionClose)" by simp
    qed
    from upload_acquire_release[OF u] cur early show ?thesis by blast
  qed
qed

lemma survey_run_clean: "fst (run (survey_env 200 (survey_frame [survey_row]))) = None"
  by code_simp

lemma survey_run_no_gender:
  "fst (run (survey_env 200 (without_column gender_header (survey_frame [survey_row])))) \<noteq> None"
  by code_simp

lemma close_fails_run:
  "fst (run (close_fails_env (survey_frame [survey_row]))) \<noteq> None"
  "CursorClose \<in> set (snd (run (close_fails_env (survey_frame [survey_row]))))"
  by code_simp+

lemma denied_fetch: "\<exists>x. fetch (response (survey_env 401 (survey_frame [survey_row]))) = Inl x"
  by (simp add: survey_env_def fetch_def)

theorem connection_closed_only_on_clean_exit_witness:
  "fst (run (survey_env 200 (survey_frame [survey_row]))) = None \<and>
   (\<exists>ins. snd (run (survey_env 200 (survey_frame [survey_row]))) =
      opening_calls @ ins @ closing_calls) \<and>
   fst (run (survey_env 200 (without_column gender_header (survey_frame [survey_row])))) \<noteq> None \<and>
   ConnectionClose \<notin>
     set (snd (run (survey_env 200 (without_column gender_header (survey_frame [survey_row]))))) \<and>
   CursorClose \<in> set (snd (run (close_fails_env (survey_frame [survey_row])))) \<and>
   fst (run (close_fails_env (survey_frame [survey_row]))) =
     Some (DatabaseError ConnectionClose) \<and>
   snd (run (survey_env 401 (survey_frame [survey_row]))) = []"
proof -
  have a: "\<exists>ins. snd (run (survey_env 200 (survey_frame [survey_row]))) =
      opening_calls @ ins @ closing_calls"
    using connection_closed_only_on_clean_exit[of "survey_env 200 (survey_frame [survey_row])"]
      survey_run_clean by blast
  have b: "ConnectionClose \<notin>
     set (snd (run (survey_env 200 (without_column gender_header (survey_frame [survey_row])))))"
    using connection_closed_only_on_clean_exit[of
        "survey_env 200 (without_column gender_header (survey_frame [survey_row]))"]
      survey_run_no_gender by blast
  have c: "fst (run (close_fails_env (survey_frame [survey_row]))) =
     Some (DatabaseError ConnectionClose)"
    using connection_closed_only_on_clean_exit[of "close_fails_env (survey_frame [survey_row])"]
      close_fails_run by blast
  have d: "snd (run (survey_env 401 (survey_frame [survey_row]))) = []"
    using connection_closed_only_on_clean_exit[of "survey_env 401 (survey_frame [survey_row])"]
      denied_fetch by blast
  from a b c d survey_run_clean survey_run_no_gender close_fails_run(2) show ?thesis
    by (intro conjI)
qed

text \<open>
  C8 as stated asks for the release on every failure path. A frame with one row and no
  gender column: the lookup of line 124 raises in the first turn of the loop, after the
  connection and the cursor were opened and the table was dropped and created, and the run
  ends there, with neither close call made.
\<close>

theorem missing_column_leaves_connection_open:
  "run (survey_env 200 (without_column gender_header (survey_frame [survey_row]))) =
     (Some (KeyError ''gender''),
      [Connect, Cursor, Execute CreateSchema, Execute DropTable, Execute CreateTable])"
  by code_simp

section \<open>Missing columns\<close>

text \<open>
  C2, as the script has it. Take a parsed frame whose canonical header lacks one of the
  eleven labels read by subscript (every field of the tuple but the rural-migration one),
  and which has at least one row, or lacks the start or the end label. Then the run ends
  with an error and no insert has been executed. When the five opening database calls go
  through, the error is the KeyError of a subscript label that the header lacks. When
  the label that the header lacks is start or end, the run ends with the KeyError of one
  of the two before any database call is made.
\<close>

theorem missing_field_aborts_before_any_insert:
  assumes st: "status_code (response e) = 200"
    and rd: "read_csv e (body_text (response e)) = Some df"
    and wf: "well_formed df"
    and k: "k \<in> set subscript_keys" "k \<notin> set (map canonical (columns df))"
    and nonempty: "rows df \<noteq> [] \<or> k = ''start'' \<or> k = ''end''"
  shows "fst (run e) \<noteq> None \<and> (\<forall>ps. Execute (Insert ps) \<notin> set (snd (run e))) \<and>
     ((\<forall>c\<in>set opening_calls. \<forall>tr. \<not> db_raises e tr c) \<longrightarrow>
        (\<exists>k'\<in>set subscript_keys. k' \<notin> set (map canonical (columns df)) \<and>
           fst (run e) = Some (KeyError k'))) \<and>
     (k = ''start'' \<or> k = ''end'' \<longrightarrow>
        snd (run e) = [] \<and>
        (fst (run e) = Some (KeyError ''start'') \<or> fst (run e) = Some (KeyError ''end'')))"
proof (cases "normalize e df")
  case (Inl x)
  then have r: "run e = (Some x, [])" using run_200[OF st rd] by simp
  from normalize_Inl[OF Inl]
  have "\<exists>k'\<in>set subscript_keys. k' \<notin> set (map canonical (columns df)) \<and> x = KeyError k'"
    and "x = KeyError ''start'' \<or> x = KeyError ''end''"
    by (auto simp: subscript_keys_def)
  with r show ?thesis by simp
next
  case (Inr df')
  then have r: "run e = upload e df'" using run_200[OF st rd] by simp
  note n = normalize_Inr[OF Inr]
  from n k(2) have "k \<noteq> ''start''" "k \<noteq> ''end''" by auto
  with nonempty n have ne: "iterrows df' \<noteq> []" by (auto simp: iterrows_def)
  have fail: "\<forall>row\<in>set (iterrows df'). \<exists>x. row_params e row = Inl x"
    using iterrows_missing_key[of _ df' k] row_params_missing[OF k(1)] k(2) n by metis
  obtain res tr where u: "upload e df' = (res, tr)" by (cases "upload e df'")
  have c1: "res \<noteq> None"
  proof
    assume "res = None"
    with upload_None[of e df' tr] u obtain t1 t2
      where "insert_rows e (iterrows df') t1 = (None, t2)" by auto
    with insert_rows_all_fail[OF ne fail, of t1] show False by simp
  qed
  have c2: "\<forall>ps. Execute (Insert ps) \<notin> set tr"
  proof
    fix ps
    from upload_trace[OF u] obtain n ins m where s:
      "tr = take n opening_calls @ ins @ take m closing_calls"
      "\<forall>c\<in>set ins. \<exists>row\<in>set (iterrows df'). \<exists>ps.
          row_params e row = Inr ps \<and> c = Execute (Insert ps)"
      by blast
    from s(2) fail have "ins = []" by (cases ins) fastforce+
    with s(1) opening_closing_no_insert[of ps n] opening_closing_no_insert[of ps m]
    show "Execute (Insert ps) \<notin> set tr" by simp
  qed
  have c3: "(\<forall>c\<in>set opening_calls. \<forall>tr. \<not> db_raises e tr c) \<longrightarrow>
        (\<exists>k'\<in>set subscript_keys. k' \<notin> set (map canonical (columns df)) \<and>
           res = Some (KeyError k'))"
  proof
    assume ok: "\<forall>c\<in>set opening_calls. \<forall>tr. \<not> db_raises e tr c"
    from ne obtain row rest where rr: "iterrows df' = row # rest" by (cases "iterrows df'") auto
    with fail obtain x where x: "row_params e row = Inl x" by auto
    from upload_first_row_fails[OF ok rr x] u have res: "res = Some x" by simp
    from row_params_Inl[OF x] obtain k' where k': "k' \<in> set subscript_keys"
      "map_of row k' = None" "x = KeyError k'" by blast
    have rect: "\<forall>r\<in>set (rows df'). length r = length (columns df')"
      using normalize_rect[OF Inr] wf by (simp add: well_formed_def)
    have "row \<in> set (iterrows df')" using rr by simp
    from iterrows_None_absent[OF this k'(2) rect] n
    have "k' \<notin> set (map canonical (columns df))" by simp
    with k' res
    show "\<exists>k'\<in>set subscript_keys. k' \<notin> set (map canonical (columns df)) \<and>
           res = Some (KeyError k')"
      by blast
  qed
  have c4: "\<not> (k = ''start'' \<or> k = ''end'')"
    using \<open>k \<noteq> ''start''\<close> \<open>k \<noteq> ''end''\<close> by simp
  from c1 c2 c3 c4 r u show ?thesis by simp
qed

lemma survey_env_facts:
  "status_code (response (survey_env 200 df)) = 200"
  "read_csv (survey_env 200 df) (body_text (response (survey_env 200 df))) = Some df"
  "\<forall>tr c. \<not> db_raises (survey_env 200 df) tr c"
  by (simp_all add: survey_env_def)

lemma no_start_facts:
  "well_formed (without_column ''start'' (survey_frame []))"
  "''start'' \<in> set subscript_keys"
  "''start'' \<notin> set (map canonical (columns (without_column ''start'' (survey_frame []))))"
  by code_simp+

lemma no_income_facts:
  "well_formed (without_column income_header (survey_frame [survey_row]))"
  "income_key \<notin>
     set (map canonical (columns (without_column income_header (survey_frame [survey_row]))))"
  "rows (without_column income_header (survey_frame [survey_row])) \<noteq> []"
  by code_simp+

theorem missing_field_aborts_before_any_insert_witness:
  "fst (run (survey_env 200 (without_column income_header (survey_frame [survey_row])))) \<noteq> None \<and>
   (\<forall>ps. Execute (Insert ps) \<notin>
      set (snd (run (survey_env 200 (without_column income_header (survey_frame [survey_row])))))) \<and>
   (\<exists>k'\<in>set subscript_keys.
      k' \<notin> set (map canonical
              (columns (without_column income_header (survey_frame [survey_row])))) \<and>
      fst (run (survey_env 200 (without_column income_header (survey_frame [survey_row])))) =
        Some (KeyError k')) \<and>
   snd (run (survey_env 200 (without_column ''start'' (survey_frame [])))) = []"
proof -
  have k: "income_key \<in> set subscript_keys" by (simp add: subscript_keys_def)
  have a: "fst (run (survey_env 200 (without_column income_header (survey_frame [survey_row]))))
      \<noteq> None \<and>
   (\<forall>ps. Execute (Insert ps) \<notin>
      set (snd (run (survey_env 200 (without_column income_header (survey_frame [survey_row])))))) \<and>
   (\<exists>k'\<in>set subscript_keys.
      k' \<notin> set (map canonical
              (columns (without_column income_header (survey_frame [survey_row])))) \<and>
      fst (run (survey_env 200 (without_column income_header (survey_frame [survey_row])))) =
        Some (KeyError k'))"
    using missing_field_aborts_before_any_insert[OF survey_env_facts(1) survey_env_facts(2)
      no_income_facts(1) k no_income_facts(2)] no_income_facts(3) survey_env_facts(3)
    by blast
  have b: "snd (run (survey_env 200 (without_column ''start'' (survey_frame [])))) = []"
    using missing_field_aborts_before_any_insert[OF survey_env_facts(1) survey_env_facts(2)
      no_start_facts(1) no_start_facts(2) no_start_facts(3)]
    by blast
  from a b show ?thesis by simp
qed

text \<open>
  C2 as stated fails in two ways. With no data row the loop body never runs: a header
  without the income column goes through, the table is dropped, created and committed.
  And the rural-migration column is read with a default: a header without it goes through
  with its row inserted.
\<close>

theorem missing_header_without_abort:
  "income_key \<notin> set (map canonical (columns (without_column income_header (survey_frame [])))) \<and>
   run (survey_env 200 (without_column income_header (survey_frame []))) =
     (None, [Connect, Cursor, Execute CreateSchema, Execute DropTable, Execute CreateTable,
             Commit, CursorClose, ConnectionClose]) \<and>
   rural_key \<notin>
     set (map canonical (columns (without_column rural_header (survey_frame [survey_row])))) \<and>
   run (survey_env 200 (without_column rural_header (survey_frame [survey_row]))) =
     (None, [Connect, Cursor, Execute CreateSchema, Execute DropTable, Execute CreateTable,
             Execute (Insert [PyTimestamp 1736071200000000000, PyNaT, PyStr ''Female'',
               PyStr ''Bachelor'', PyStr ''Kigali'', PyStr ''18-24'', PyBool False,
               PyStr ''Employed'', PyInt 3, PyInt 250000, PyInt 12, PyInt 0]),
             Commit, CursorClose, ConnectionClose])"
  by code_simp

lemma row_params_present:
  "\<forall>k\<in>set subscript_keys. map_of row k \<noteq> None \<Longrightarrow> \<exists>ps. row_params e row = Inr ps"
  unfolding row_params_def subscript_keys_def
  by (auto simp: and_then_def getitem_def)

lemma rural_absent_False: "map_of row rural_key = None \<Longrightarrow> \<not> rural_to_urban e row"
  by (simp add: rural_to_urban_def get_default_def py_str_def py_strip_def py_lower_def)

lemma rural_key_not_subscript: "rural_key \<notin> set subscript_keys"
  by code_simp

lemma iterrows_present_key:
  assumes "row \<in> set (iterrows df)" and "k \<in> set (columns df)"
    and "\<forall>r\<in>set (rows df). length r = length (columns df)"
  shows "map_of row k \<noteq> None"
  using iterrows_None_absent[OF assms(1) _ assms(3)] assms(2) by blast

lemma filter_inserts:
  assumes "\<forall>c\<in>set ins. is_insert c"
  shows "filter is_insert (opening_calls @ ins @ closing_calls) = ins"
proof -
  have "filter is_insert ins = ins" using assms by (simp add: filter_id_conv)
  then show ?thesis by (simp add: opening_calls_def closing_calls_def is_insert_def)
qed

text \<open>
  C9. Take a parsed frame whose canonical header lacks the rural-migration label. The run
  never ends with the KeyError of that label, and every insert that is executed carries
  false as its seventh parameter. When the header has the eleven subscript labels and the
  database accepts every call, the run ends without an error, with one insert for each
  row.
\<close>

theorem absent_rural_column_stores_false:
  assumes st: "status_code (response e) = 200"
    and rd: "read_csv e (body_text (response e)) = Some df"
    and wf: "well_formed df"
    and absent: "rural_key \<notin> set (map canonical (columns df))"
  shows "fst (run e) \<noteq> Some (KeyError rural_key) \<and>
     (\<forall>ps. Execute (Insert ps) \<in> set (snd (run e)) \<longrightarrow> ps ! 6 = PyBool False) \<and>
     (set subscript_keys \<subseteq> set (map canonical (columns df)) \<and>
      (\<forall>tr c. \<not> db_raises e tr c) \<longrightarrow>
        fst (run e) = None \<and> length (filter is_insert (snd (run e))) = length (rows df))"
proof (cases "normalize e df")
  case (Inl x)
  then have r: "run e = (Some x, [])" using run_200[OF st rd] by simp
  from normalize_Inl[OF Inl] have x: "x = KeyError ''start'' \<or> x = KeyError ''end''"
    and miss: "''start'' \<notin> set (map canonical (columns df)) \<or>
               ''end'' \<notin> set (map canonical (columns df))"
    by auto
  from x rural_key_not_subscript have "x \<noteq> KeyError rural_key"
    by (auto simp: subscript_keys_def)
  moreover from miss have "\<not> set subscript_keys \<subseteq> set (map canonical (columns df))"
    by (auto simp: subscript_keys_def)
  ultimately show ?thesis using r by simp
next
  case (Inr df')
  then have r: "run e = upload e df'" using run_200[OF st rd] by simp
  note n = normalize_Inr[OF Inr]
  have rect: "\<forall>r\<in>set (rows df'). length r = length (columns df')"
    using normalize_rect[OF Inr] wf by (simp add: well_formed_def)
  have none: "\<forall>row\<in>set (iterrows df'). map_of row rural_key = None"
    using iterrows_missing_key[of _ df' rural_key] absent n by simp
  obtain res tr where u: "upload e df' = (res, tr)" by (cases "upload e df'")
  have c1: "res \<noteq> Some (KeyError rural_key)"
  proof
    assume res: "res = Some (KeyError rural_key)"
    from upload_err[OF u[unfolded res]] obtain row
      where "row_params e row = Inl (KeyError rural_key)" by auto
    from row_params_Inl[OF this] rural_key_not_subscript show False by auto
  qed
  have c2: "\<forall>ps. Execute (Insert ps) \<in> set tr \<longrightarrow> ps ! 6 = PyBool False"
  proof (intro allI impI)
    fix ps assume ps: "Execute (Insert ps) \<in> set tr"
    from upload_trace[OF u] obtain n ins m where s:
      "tr = take n opening_calls @ ins @ take m closing_calls"
      "\<forall>c\<in>set ins. \<exists>row\<in>set (iterrows df'). \<exists>ps.
          row_params e row = Inr ps \<and> c = Execute (Insert ps)"
      by blast
    from ps s(1) opening_closing_no_insert[of ps n] opening_closing_no_insert[of ps m]
    have "Execute (Insert ps) \<in> set ins" by simp
    with s(2) obtain row where row: "row \<in> set (iterrows df')" "row_params e row = Inr ps"
      by auto
    from row_params_Inr[OF row(2)] have "ps ! 6 = PyBool (rural_to_urban e row)" by auto
    with rural_absent_False[of row e] none row(1) show "ps ! 6 = PyBool False" by simp
  qed
  have c3: "set subscript_keys \<subseteq> set (map canonical (columns df)) \<and>
      (\<forall>tr c. \<not> db_raises e tr c) \<longrightarrow>
        res = None \<and> length (filter is_insert tr) = length (rows df)"
  proof
    assume a: "set subscript_keys \<subseteq> set (map canonical (columns df)) \<and>
      (\<forall>tr c. \<not> db_raises e tr c)"
    have "\<forall>row\<in>set (iterrows df'). \<forall>k\<in>set subscript_keys. map_of row k \<noteq> None"
      using iterrows_present_key[OF _ _ rect] a n by auto
    then have "\<forall>row\<in>set (iterrows df'). \<exists>ps. row_params e row = Inr ps"
      using row_params_present by blast
    from upload_all_ok[OF _ this] a obtain ins where
      ins: "upload e df' = (None, opening_calls @ ins @ closing_calls)"
        "length ins = length (rows df')" "\<forall>c\<in>set ins. is_insert c" by blast
    with u filter_inserts[OF ins(3)] n
    show "res = None \<and> length (filter is_insert tr) = length (rows df)" by simp
  qed
  from c1 c2 c3 r u show ?thesis by simp
qed

lemma no_rural_facts:
  "well_formed (without_column rural_header (survey_frame [survey_row]))"
  "rural_key \<notin>
     set (map canonical (columns (without_column rural_header (survey_frame [survey_row]))))"
  "set subscript_keys \<subseteq>
     set (map canonical (columns (without_column rural_header (survey_frame [survey_row]))))"
  by code_simp+

theorem absent_rural_column_stores_false_witness:
  "fst (run (survey_env 200 (without_column rural_header (survey_frame [survey_row])))) = None \<and>
   length (filter is_insert
     (snd (run (survey_env 200 (without_column rural_header (survey_frame [survey_row])))))) =
     length (rows (without_column rural_header (survey_frame [survey_row]))) \<and>
   fst (run (survey_env 200 (without_column rural_header (survey_frame [survey_row])))) \<noteq>
     Some (KeyError rural_key)"
  using absent_rural_column_stores_false[OF survey_env_facts(1) survey_env_facts(2)
      no_rural_facts(1) no_rural_facts(2)] no_rural_facts(3) survey_env_facts(3)
  by blast

section \<open>A frame with no rows\<close>

text \<open>
  C10, as the script has it. Take a parsed frame with no data row whose canonical header
  has the start and the end label (the two columns converted before the upload), and a
  database that accepts every call. Whatever other labels the header lacks, the run ends
  without an error after exactly these calls: connect, cursor, create schema, drop table,
  create table, commit, cursor close, connection close. No insert is made, so the new
  table is empty.
\<close>

theorem empty_frame_recreates_table:
  assumes st: "status_code (response e) = 200"
    and rd: "read_csv e (body_text (response e)) = Some df"
    and wf: "well_formed df"
    and empty: "rows df = []"
    and present: "''start'' \<in> set (map canonical (columns df))"
      "''end'' \<in> set (map canonical (columns df))"
    and db: "\<forall>tr c. \<not> db_raises e tr c"
  shows "run e =
     (None, [Connect, Cursor, Execute CreateSchema, Execute DropTable, Execute CreateTable,
             Commit, CursorClose, ConnectionClose])"
proof -
  from normalize_present[OF present] obtain df' where n: "normalize e df = Inr df'" by blast
  from normalize_Inr[OF n] empty have "iterrows df' = []" by (simp add: iterrows_def)
  then have "upload e df' = (None, opening_calls @ closing_calls)"
    using db_calls_never[OF db, of "[]" opening_calls]
      db_calls_never[OF db, of opening_calls closing_calls]
    by (simp add: upload_def)
  with n run_200[OF st rd] show ?thesis
    by (simp add: opening_calls_def closing_calls_def)
qed

lemma no_income_empty_facts:
  "well_formed (without_column income_header (survey_frame []))"
  "rows (without_column income_header (survey_frame [])) = []"
  "''start'' \<in> set (map canonical (columns (without_column income_header (survey_frame []))))"
  "''end'' \<in> set (map canonical (columns (without_column income_header (survey_frame []))))"
  by code_simp+

theorem empty_frame_recreates_table_witness:
  "run (survey_env 200 (without_column income_header (survey_frame []))) =
     (None, [Connect, Cursor, Execute CreateSchema, Execute DropTable, Execute CreateTable,
             Commit, CursorClose, ConnectionClose])"
  by (rule empty_frame_recreates_table[OF survey_env_facts(1) survey_env_facts(2)
        no_income_empty_facts survey_env_facts(3)])

text \<open>
  C10 as stated covers every absent header. The start column is read as a whole in line
  61, before the database is opened and whether or not there are rows: a frame with no row
  and no start column ends with the KeyError of that label, and nothing is dropped,
  created or committed.
\<close>

theorem empty_frame_without_start_aborts:
  "rows (without_column ''start'' (survey_frame [])) = [] \<and>
   run (survey_env 200 (without_column ''start'' (survey_frame []))) =
     (Some (KeyError ''start''), [])"
  by code_simp

section \<open>Timestamps that do not parse\<close>

text \<open>
  C5, on the sample export. The end cell of the row does not parse. Line 58 has already
  turned the missing cells into None when lines 61 and 62 run, so the NaT that the
  conversion puts in the cell stays: the insert is sent with NaT, which is not None, as
  its second parameter.
\<close>

theorem unparseable_end_is_inserted_as_NaT:
  "run (survey_env 200 (survey_frame [survey_row])) =
     (None, [Connect, Cursor, Execute CreateSchema, Execute DropTable, Execute CreateTable,
             Execute (Insert [PyTimestamp 1736071200000000000, PyNaT, PyStr ''Female'',
               PyStr ''Bachelor'', PyStr ''Kigali'', PyStr ''18-24'', PyBool True,
               PyStr ''Employed'', PyInt 3, PyInt 250000, PyInt 12, PyInt 0]),
             Commit, CursorClose, ConnectionClose]) \<and>
   PyNaT \<noteq> PyNone"
  by code_simp

section \<open>The rural-migration flag\<close>

lemma yes_needs_y:
  assumes "py_lower (py_strip s) = ''yes''"
  shows "CHR ''y'' \<in> set s \<or> CHR ''Y'' \<in> set s"
proof -
  have "CHR ''y'' \<in> set (py_lower (py_strip s))" by (simp add: assms)
  then obtain c where c: "c \<in> set (py_strip s)" "lower_char c = CHR ''y''"
    by (auto simp: py_lower_def)
  from c(1) set_py_strip[of s] have "c \<in> set s" by blast
  with lower_char_y[OF c(2)] show ?thesis by auto
qed

lemma nat_digits_chars:
  "c \<in> set (nat_digits n) \<Longrightarrow> 48 \<le> (of_char c :: nat) \<and> (of_char c :: nat) \<le> 57"
proof (induction n rule: nat_digits.induct)
  case (1 n)
  show ?case
  proof (cases "n < 10")
    case True
    with "1.prems" have "c = char_of (48 + n)" by (subst (asm) nat_digits.simps) auto
    with True show ?thesis by simp
  next
    case False
    with "1.prems" have "c \<in> set (nat_digits (n div 10)) \<or> c = char_of (48 + n mod 10)"
      by (subst (asm) nat_digits.simps) auto
    then show ?thesis
    proof
      assume "c \<in> set (nat_digits (n div 10))"
      with "1.IH"[OF False] show ?thesis by simp
    next
      assume "c = char_of (48 + n mod 10)"
      moreover have "n mod 10 < 10" by simp
      ultimately show ?thesis by simp
    qed
  qed
qed

lemma str_int_not_yes: "py_lower (py_strip (str_int n)) \<noteq> ''yes''"
proof
  assume "py_lower (py_strip (str_int n)) = ''yes''"
  from yes_needs_y[OF this] obtain c where c: "c \<in> set (str_int n)" "c = CHR ''y'' \<or> c = CHR ''Y''"
    by auto
  from c(1) have "c = CHR ''-'' \<or> (48 \<le> (of_char c :: nat) \<and> (of_char c :: nat) \<le> 57)"
    using nat_digits_chars by (auto simp: str_int_def split: if_splits)
  with c(2) show False by auto
qed

lemma constant_texts_not_yes:
  "py_lower (py_strip ''None'') \<noteq> ''yes''"
  "py_lower (py_strip ''nan'') \<noteq> ''yes''"
  "py_lower (py_strip ''NaT'') \<noteq> ''yes''"
  "py_lower (py_strip ''True'') \<noteq> ''yes''"
  "py_lower (py_strip ''False'') \<noteq> ''yes''"
  "py_lower (py_strip '''') \<noteq> ''yes''"
  "py_lower (py_strip ''YES '') = ''yes''"
  by code_simp+

lemma rural_to_urban_cell:
  "rural_to_urban e row =
     (py_lower (py_strip (py_str e (case map_of row rural_key of None \<Rightarrow> PyStr '''' | Some v \<Rightarrow> v))) = ''yes'')"
  by (simp add: rural_to_urban_def get_default_def)

text \<open>
  C3, for a row whose labels are pairwise distinct. Provided the text that \<^verbatim>\<open>str()\<close> gives a float or a Timestamp never reads yes
  (Python writes them with digits, signs and a few fixed letters), the rural-migration
  flag of a row is true exactly when the row has a string under the rural-migration label
  and that string, trimmed and then lowercased, is the literal yes. So an absent label,
  None, NaN, a bool and an int all give false. The string YES with a trailing space gives
  true, and the flag is the seventh parameter of the row's insert.
\<close>

theorem rural_flag_true_iff_yes:
  assumes labels: "distinct (map fst row)"
    and fl: "\<forall>r. py_lower (py_strip (str_float e r)) \<noteq> ''yes''"
    and ts: "\<forall>t. py_lower (py_strip (str_timestamp e t)) \<noteq> ''yes''"
  shows "(rural_to_urban e row \<longleftrightarrow>
            (\<exists>s. map_of row rural_key = Some (PyStr s) \<and> py_lower (py_strip s) = ''yes'')) \<and>
         (map_of row rural_key = Some (PyStr ''YES '') \<longrightarrow> rural_to_urban e row) \<and>
         (\<forall>ps. row_params e row = Inr ps \<longrightarrow> ps ! 6 = PyBool (rural_to_urban e row))"
proof (intro conjI allI impI)
  show "rural_to_urban e row \<longleftrightarrow>
            (\<exists>s. map_of row rural_key = Some (PyStr s) \<and> py_lower (py_strip s) = ''yes'')"
  proof (cases "map_of row rural_key")
    case None
    then show ?thesis by (simp add: rural_to_urban_cell py_str_def constant_texts_not_yes)
  next
    case (Some v)
    then show ?thesis
      using fl ts str_int_not_yes
      by (cases v) (simp_all add: rural_to_urban_cell py_str_def constant_texts_not_yes)
  qed
  show "rural_to_urban e row" if "map_of row rural_key = Some (PyStr ''YES '')"
    using that by (simp add: rural_to_urban_cell py_str_def constant_texts_not_yes)
  show "ps ! 6 = PyBool (rural_to_urban e row)" if "row_params e row = Inr ps" for ps
    using row_params_Inr[OF that] by auto
qed

lemma survey_texts:
  "\<forall>r. py_lower (py_strip (str_float (survey_env 200 df) r)) \<noteq> ''yes''"
  "\<forall>t. py_lower (py_strip (str_timestamp (survey_env 200 df) t)) \<noteq> ''yes''"
proof -
  have "py_lower (py_strip ''0.0'') \<noteq> ''yes''" "py_lower (py_strip ''2025-01-05 10:00:00'') \<noteq> ''yes''"
    by code_simp+
  then show "\<forall>r. py_lower (py_strip (str_float (survey_env 200 df) r)) \<noteq> ''yes''"
    "\<forall>t. py_lower (py_strip (str_timestamp (survey_env 200 df) t)) \<noteq> ''yes''"
    by (simp_all add: survey_env_def)
qed

lemma survey_series_facts:
  "map_of survey_series rural_key = Some (PyStr ''YES '')"
  "row_params (survey_env 200 (survey_frame [])) survey_series =
     Inr [PyTimestamp 1736071200000000000, PyNaT, PyStr ''Female'', PyStr ''Bachelor'',
          PyStr ''Kigali'', PyStr ''18-24'', PyBool True, PyStr ''Employed'',
          PyInt 3, PyInt 0, PyStr ''12'', PyInt 0]"
  "distinct (map fst survey_series)"
  by code_simp+

theorem rural_flag_true_iff_yes_witness:
  "rural_to_urban (survey_env 200 (survey_frame [])) survey_series \<and>
   (\<exists>s. map_of survey_series rural_key = Some (PyStr s) \<and> py_lower (py_strip s) = ''yes'')"
  using rural_flag_true_iff_yes[where e = "survey_env 200 (survey_frame [])" and row = survey_series,
      OF survey_series_facts(3) survey_texts] survey_series_facts(1)
  by blast

section \<open>The four integer columns\<close>

lemma numeric_key_not_timestamp:
  "k \<in> set numeric_keys \<Longrightarrow> k \<noteq> ''start'' \<and> k \<noteq> ''end''"
  by (auto simp: numeric_keys_def months_key_def income_key_def applications_key_def
      changes_key_def)

text \<open>
  C6, as the script has it. \<^verbatim>\<open>x or 0\<close> gives the integer zero when the cell is None, the
  empty string, the integer 0, the float 0.0 or False, and gives the cell itself,
  unchanged, in every other case: an integer stays that integer, a string stays a string
  and a float stays a float. The last four parameters of the insert of a row (with
  pairwise distinct labels) are the cells under the four numeric labels, each put through
  this default. In a well-formed frame, the cell that the loop reads under a numeric label
  is the parsed cell after line 58, and a missing cell of a column that was not read as
  numbers is None there, so its parameter is zero.
\<close>

theorem or_zero_defaults_falsy_values:
  "or_zero x =
     (if x = PyNone \<or> x = PyStr [] \<or> x = PyInt 0 \<or> x = PyFloat 0 \<or> x = PyBool False
      then PyInt 0 else x) \<and>
   (\<forall>ps. distinct (map fst row) \<and> row_params e row = Inr ps \<longrightarrow>
      (\<exists>m i a c. getitem row months_key = Inr m \<and> getitem row income_key = Inr i \<and>
         getitem row applications_key = Inr a \<and> getitem row changes_key = Inr c \<and>
         drop 8 ps = [or_zero m, or_zero i, or_zero a, or_zero c])) \<and>
   (\<forall>i j. well_formed df \<and> normalize e df = Inr df' \<and> i < length (rows df) \<and>
        j < length (columns df) \<and> canonical (columns df ! j) \<in> set numeric_keys \<longrightarrow>
      getitem (iterrows df' ! i) (canonical (columns df ! j)) =
        Inr (where_cell (frame_column df j) (rows df ! i ! j))) \<and>
   (\<not> notnull c \<and> \<not> numeric_dtype col \<longrightarrow> or_zero (where_cell col c) = PyInt 0)"
proof (intro conjI allI impI)
  show "or_zero x =
     (if x = PyNone \<or> x = PyStr [] \<or> x = PyInt 0 \<or> x = PyFloat 0 \<or> x = PyBool False
      then PyInt 0 else x)"
    by (cases x) (auto simp: or_zero_def truthy_def)
  show "\<exists>m i a c. getitem row months_key = Inr m \<and> getitem row income_key = Inr i \<and>
         getitem row applications_key = Inr a \<and> getitem row changes_key = Inr c \<and>
         drop 8 ps = [or_zero m, or_zero i, or_zero a, or_zero c]"
    if "distinct (map fst row) \<and> row_params e row = Inr ps" for ps
  proof -
    from that have "row_params e row = Inr ps" by simp
    from row_params_Inr[OF this] show ?thesis by (auto simp: getitem_def)
  qed
  show "getitem (iterrows df' ! i) (canonical (columns df ! j)) =
        Inr (where_cell (frame_column df j) (rows df ! i ! j))"
    if "well_formed df \<and> normalize e df = Inr df' \<and> i < length (rows df) \<and>
        j < length (columns df) \<and> canonical (columns df ! j) \<in> set numeric_keys" for i j
  proof -
    from that have h: "well_formed df" "normalize e df = Inr df'" "i < length (rows df)"
      "j < length (columns df)" "canonical (columns df ! j) \<in> set numeric_keys" by simp_all
    from numeric_key_not_timestamp[OF h(5)]
    have "canonical (columns df ! j) \<noteq> ''start''" "canonical (columns df ! j) \<noteq> ''end''"
      by simp_all
    from normalized_cell[OF h(1) h(2) h(3) h(4) this] show ?thesis by (simp add: getitem_def)
  qed
  show "or_zero (where_cell col c) = PyInt 0" if "\<not> notnull c \<and> \<not> numeric_dtype col"
    using that by (simp add: where_cell_def or_zero_def truthy_def)
qed

lemma income_frame_facts:
  "well_formed income_frame"
  "normalize (survey_env 200 income_frame) income_frame = Inr income_frame_normalized"
  "(1::nat) < length (rows income_frame)"
  "(2::nat) < length (columns income_frame)"
  "canonical (columns income_frame ! 2) \<in> set numeric_keys"
  "\<not> notnull (rows income_frame ! 1 ! 2)"
  "\<not> numeric_dtype (frame_column income_frame 2)"
  by code_simp+

lemma survey_series_params:
  "distinct (map fst survey_series)"
  "row_params (survey_env 200 income_frame) survey_series =
     Inr [PyTimestamp 1736071200000000000, PyNaT, PyStr ''Female'', PyStr ''Bachelor'',
          PyStr ''Kigali'', PyStr ''18-24'', PyBool True, PyStr ''Employed'',
          PyInt 3, PyInt 0, PyStr ''12'', PyInt 0]"
  by code_simp+

theorem or_zero_defaults_falsy_values_witness:
  "(\<exists>m i a c. getitem survey_series months_key = Inr m \<and>
      getitem survey_series income_key = Inr i \<and>
      getitem survey_series applications_key = Inr a \<and>
      getitem survey_series changes_key = Inr c \<and>
      drop 8 [PyTimestamp 1736071200000000000, PyNaT, PyStr ''Female'', PyStr ''Bachelor'',
          PyStr ''Kigali'', PyStr ''18-24'', PyBool True, PyStr ''Employed'',
          PyInt 3, PyInt 0, PyStr ''12'', PyInt 0] =
        [or_zero m, or_zero i, or_zero a, or_zero c]) \<and>
   getitem (iterrows income_frame_normalized ! 1) (canonical (columns income_frame ! 2)) =
     Inr (where_cell (frame_column income_frame 2) (rows income_frame ! 1 ! 2)) \<and>
   or_zero (where_cell (frame_column income_frame 2) (rows income_frame ! 1 ! 2)) = PyInt 0"
  using or_zero_defaults_falsy_values[of PyNone survey_series "survey_env 200 income_frame"
      income_frame income_frame_normalized "rows income_frame ! 1 ! 2"
      "frame_column income_frame 2"]
    survey_series_params income_frame_facts
  by blast

text \<open>
  C6 as stated has every other value parsed to an integer. The script parses nothing: a
  cell that holds the text 12 (the column was read as text because another of its cells is
  not a number) is passed on as that text, not as the integer 12, and the float 2.5 is
  passed on as 2.5.
\<close>

theorem or_zero_keeps_text:
  "or_zero (PyStr ''12'') = PyStr ''12'' \<and> or_zero (PyStr ''12'') \<noteq> PyInt 12 \<and>
   or_zero (PyFloat (5 / 2)) = PyFloat (5 / 2)"
  by (simp add: or_zero_def truthy_def)

end
